theory Spec2Isabelle
  imports Main
begin

section \<open>Python values and the string operations the scripts use\<close>

text \<open>
  A Python \<open>str\<close> is the list of its code points, each a natural number; \<open>ascii\<close> reads a
  literal of the scripts, all of which are ASCII. A \<open>str\<close> may hold a lone surrogate
  (\<open>json.loads\<close> returns one for the escape \<open>\ud800\<close>), which UTF-8 cannot encode.

  What Python takes from the Unicode database (the case mappings behind \<open>lower\<close> and
  \<open>title\<close>, the property of being cased, the property of being printable behind \<open>repr\<close>) is
  a parameter of the model, consulted for the code points above ASCII only; on ASCII the
  mappings are written out. The general statements below hold for every such database.

  The value \<open>json.loads\<close> returns for a line is a \<open>json\<close> tree. Python's \<open>bool\<close> is a
  subclass of \<open>int\<close>, so \<open>isinstance(True, int)\<close> holds. A float is carried by the text
  \<open>str\<close> prints for it. A \<open>dict\<close> is the list of its items in insertion order.

  The exceptions of the model are those that no handler of the scripts catches.
  \<open>JSONDecodeError\<close>, the one exception the scripts catch, is not among them: it is an
  outcome of \<open>json.loads\<close> below.
\<close>

type_synonym str = "nat list"

definition ascii :: "string \<Rightarrow> str" where
  "ascii s = map of_char s"

record unicode_db =
  lower_full :: "str \<Rightarrow> nat \<Rightarrow> str"
  title_full :: "nat \<Rightarrow> str"
  cased :: "nat \<Rightarrow> bool"
  printable :: "nat \<Rightarrow> bool"

datatype json =
    JNull
  | JBool bool
  | JInt int
  | JFloat str
  | JStr str
  | JList "json list"
  | JDict "(str \<times> json) list"

datatype py_error =
    AttributeError
  | UnicodeEncodeError
  | UnicodeDecodeError
  | RecursionError
  | ValueError

fun isinstance_dict :: "json \<Rightarrow> bool" where
  "isinstance_dict (JDict kvs) = True"
| "isinstance_dict v = False"

text \<open>\<open>isinstance(value, (int, float, str))\<close>\<close>

fun isinstance_int_float_str :: "json \<Rightarrow> bool" where
  "isinstance_int_float_str (JBool b) = True"
| "isinstance_int_float_str (JInt i) = True"
| "isinstance_int_float_str (JFloat f) = True"
| "isinstance_int_float_str (JStr s) = True"
| "isinstance_int_float_str v = False"

subsection \<open>Decimal numerals\<close>

definition digit_char :: "nat \<Rightarrow> nat" where
  "digit_char d = ascii ''0123456789'' ! (d mod 10)"

fun str_nat :: "nat \<Rightarrow> str" where
  "str_nat n = (if n < 10 then [digit_char n] else str_nat (n div 10) @ [digit_char (n mod 10)])"

text \<open>\<open>str(i)\<close> of an int. CPython (3.11, and the security releases of the older
  branches) refuses to print an int of more than \<open>sys.int_info.default_max_str_digits\<close>
  = 4300 decimal digits, the sign not counted: it raises \<open>ValueError\<close>.\<close>

definition int_max_str_digits :: nat where
  "int_max_str_digits = 4300"

definition str_int :: "int \<Rightarrow> py_error + str" where
  "str_int i =
     (if length (str_nat (nat \<bar>i\<bar>)) > int_max_str_digits then Inl ValueError
      else Inr ((if i < 0 then ascii ''-'' else []) @ str_nat (nat \<bar>i\<bar>)))"

text \<open>The format specification \<open>03d\<close>: decimal, padded with zeros on the left to a
  width of at least three.\<close>

definition format_03d :: "nat \<Rightarrow> str" where
  "format_03d n = replicate (3 - length (str_nat n)) (digit_char 0) @ str_nat n"

subsection \<open>String methods\<close>

text \<open>\<open>sep.join(parts)\<close>\<close>

fun join :: "str \<Rightarrow> str list \<Rightarrow> str" where
  "join sep [] = []"
| "join sep [p] = p"
| "join sep (p # q # ps) = p @ sep @ join sep (q # ps)"

text \<open>\<open>s.startswith(p)\<close>, \<open>s.endswith(p)\<close>, \<open>s.endswith((p1, ..., pn))\<close> and
  \<open>p in s\<close>.\<close>

definition startswith :: "str \<Rightarrow> str \<Rightarrow> bool" where
  "startswith s p = (take (length p) s = p)"

definition endswith :: "str \<Rightarrow> str \<Rightarrow> bool" where
  "endswith s p = (length p \<le> length s \<and> drop (length s - length p) s = p)"

definition endswith_any :: "str \<Rightarrow> str list \<Rightarrow> bool" where
  "endswith_any s ps = list_ex (endswith s) ps"

fun contains :: "str \<Rightarrow> str \<Rightarrow> bool" where
  "contains p [] = (p = [])"
| "contains p (c # cs) = (startswith (c # cs) p \<or> contains p cs)"

text \<open>\<open>s.replace(old, new)\<close> for a non-empty \<open>old\<close> (every call of the scripts
  passes a non-empty literal): the occurrences are replaced from left to right,
  without overlap.\<close>

function py_replace :: "str \<Rightarrow> str \<Rightarrow> str \<Rightarrow> str" where
  "py_replace old new [] = []"
| "py_replace old new (c # cs) =
     (if old \<noteq> [] \<and> startswith (c # cs) old
      then new @ py_replace old new (drop (length old) (c # cs))
      else c # py_replace old new cs)"
  by pat_completeness auto
termination
  by (relation "measure (\<lambda>(old, new, s). length s)") auto

subsection \<open>Case mapping\<close>

text \<open>On ASCII: the letters are the cased code points, and the lower-case and title-case
  mappings exchange the two alphabets.\<close>

definition ascii_cased :: "nat \<Rightarrow> bool" where
  "ascii_cased c =
     (c \<in> set (ascii ''abcdefghijklmnopqrstuvwxyz'') \<or> c \<in> set (ascii ''ABCDEFGHIJKLMNOPQRSTUVWXYZ''))"

definition ascii_lower :: "nat \<Rightarrow> nat" where
  "ascii_lower c =
     (case map_of (zip (ascii ''ABCDEFGHIJKLMNOPQRSTUVWXYZ'') (ascii ''abcdefghijklmnopqrstuvwxyz'')) c of
        Some l \<Rightarrow> l | None \<Rightarrow> c)"

definition ascii_title :: "nat \<Rightarrow> nat" where
  "ascii_title c =
     (case map_of (zip (ascii ''abcdefghijklmnopqrstuvwxyz'') (ascii ''ABCDEFGHIJKLMNOPQRSTUVWXYZ'')) c of
        Some u \<Rightarrow> u | None \<Rightarrow> c)"

text \<open>The three look-ups of CPython's case mapping: the lower-case mapping of the
  character \<open>c\<close> at position \<open>i\<close> of \<open>s\<close> (above ASCII it may depend on the characters
  around it, as for the final sigma, and it may have several code points), the title-case
  mapping of a code point, and whether a code point is cased.\<close>

definition lower_at :: "unicode_db \<Rightarrow> str \<Rightarrow> nat \<Rightarrow> nat \<Rightarrow> str" where
  "lower_at U s i c = (if c < 128 then [ascii_lower c] else lower_full U s i)"

definition to_title :: "unicode_db \<Rightarrow> nat \<Rightarrow> str" where
  "to_title U c = (if c < 128 then [ascii_title c] else title_full U c)"

definition is_cased :: "unicode_db \<Rightarrow> nat \<Rightarrow> bool" where
  "is_cased U c = (if c < 128 then ascii_cased c else cased U c)"

text \<open>\<open>s.lower()\<close>: the loop over the characters of \<open>s\<close>, from position \<open>i\<close> on.\<close>

fun lower_from :: "unicode_db \<Rightarrow> str \<Rightarrow> nat \<Rightarrow> str \<Rightarrow> str" where
  "lower_from U s i [] = []"
| "lower_from U s i (c # cs) = lower_at U s i c @ lower_from U s (i + 1) cs"

definition py_lower :: "unicode_db \<Rightarrow> str \<Rightarrow> str" where
  "py_lower U s = lower_from U s 0 s"

text \<open>\<open>s.title()\<close>: a character that follows a cased character is lowered, any other
  character is title-cased. The flag says whether the character before was cased.\<close>

fun title_from :: "unicode_db \<Rightarrow> str \<Rightarrow> bool \<Rightarrow> nat \<Rightarrow> str \<Rightarrow> str" where
  "title_from U s previous_is_cased i [] = []"
| "title_from U s previous_is_cased i (c # cs) =
     (if previous_is_cased then lower_at U s i c else to_title U c)
       @ title_from U s (is_cased U c) (i + 1) cs"

definition py_title :: "unicode_db \<Rightarrow> str \<Rightarrow> str" where
  "py_title U s = title_from U s False 0 s"

subsection \<open>\<open>str\<close> and \<open>repr\<close> of a JSON value\<close>

text \<open>\<open>repr\<close> of a string: double quotes when the text holds a single quote (39) and no
  double quote (34), single quotes otherwise. The quote and the backslash (92) are
  escaped by a backslash; tab (9), newline (10) and carriage return (13) are a backslash
  and \<open>t\<close> (116), \<open>n\<close> (110), \<open>r\<close> (114); any other code point that is not printable is a
  backslash and \<open>x\<close> (120), \<open>u\<close> (117) or \<open>U\<close> (85) with two, four or eight hexadecimal
  digits. On ASCII the printable code points are 32 to 126.\<close>

definition hex_char :: "nat \<Rightarrow> nat" where
  "hex_char d = ascii ''0123456789abcdef'' ! (d mod 16)"

definition is_printable :: "unicode_db \<Rightarrow> nat \<Rightarrow> bool" where
  "is_printable U c = (if c < 128 then 32 \<le> c \<and> c < 127 else printable U c)"

definition repr_quote :: "str \<Rightarrow> nat" where
  "repr_quote s = (if 39 \<in> set s \<and> 34 \<notin> set s then 34 else 39)"

definition repr_char :: "unicode_db \<Rightarrow> nat \<Rightarrow> nat \<Rightarrow> str" where
  "repr_char U q c =
     (if c = q \<or> c = 92 then [92, c]
      else if c = 9 then [92, 116]
      else if c = 10 then [92, 110]
      else if c = 13 then [92, 114]
      else if is_printable U c then [c]
      else if c < 256 then
        [92, 120] @ [hex_char (c div 16), hex_char c]
      else if c < 65536 then
        [92, 117] @ [hex_char (c div 4096), hex_char (c div 256), hex_char (c div 16), hex_char c]
      else
        [92, 85] @ [hex_char (c div 268435456), hex_char (c div 16777216),
                        hex_char (c div 1048576), hex_char (c div 65536),
                        hex_char (c div 4096), hex_char (c div 256), hex_char (c div 16),
                        hex_char c])"

definition repr_str :: "unicode_db \<Rightarrow> str \<Rightarrow> str" where
  "repr_str U s = repr_quote s # concat (map (repr_char U (repr_quote s)) s) @ [repr_quote s]"

text \<open>The results of a list of calls made from left to right: the first error, or all
  the values.\<close>

fun all_of :: "(py_error + 'a) list \<Rightarrow> py_error + 'a list" where
  "all_of [] = Inr []"
| "all_of (Inl e # rs) = Inl e"
| "all_of (Inr v # rs) = (case all_of rs of Inl e \<Rightarrow> Inl e | Inr vs \<Rightarrow> Inr (v # vs))"

fun py_repr :: "unicode_db \<Rightarrow> json \<Rightarrow> py_error + str" where
  "py_repr U JNull = Inr (ascii ''None'')"
| "py_repr U (JBool b) = Inr (if b then ascii ''True'' else ascii ''False'')"
| "py_repr U (JInt i) = str_int i"
| "py_repr U (JFloat f) = Inr f"
| "py_repr U (JStr s) = Inr (repr_str U s)"
| "py_repr U (JList vs) =
     (case all_of (map (py_repr U) vs) of
        Inl e \<Rightarrow> Inl e
      | Inr rs \<Rightarrow> Inr (ascii ''['' @ join (ascii '', '') rs @ ascii '']''))"
| "py_repr U (JDict kvs) =
     (case all_of (map (\<lambda>kv. case py_repr U (snd kv) of
                              Inl e \<Rightarrow> Inl e
                            | Inr r \<Rightarrow> Inr (repr_str U (fst kv) @ ascii '': '' @ r)) kvs) of
        Inl e \<Rightarrow> Inl e
      | Inr rs \<Rightarrow> Inr (ascii ''{'' @ join (ascii '', '') rs @ ascii ''}''))"

text \<open>\<open>str(value)\<close>, which is also what an f-string field prints.\<close>

definition py_str :: "unicode_db \<Rightarrow> json \<Rightarrow> py_error + str" where
  "py_str U v = (case v of JStr s \<Rightarrow> Inr s | _ \<Rightarrow> py_repr U v)"

text \<open>\<open>d.get(key, default)\<close> on the items of a dict.\<close>

definition dict_get :: "json \<Rightarrow> str \<Rightarrow> json \<Rightarrow> json" where
  "dict_get d k dflt =
     (case d of
        JDict kvs \<Rightarrow> (case map_of kvs k of Some v \<Rightarrow> v | None \<Rightarrow> dflt)
      | _ \<Rightarrow> dflt)"

subsection \<open>UTF-8\<close>

text \<open>The number of bytes of a code point in UTF-8, and \<open>len(s.encode('utf-8'))\<close>: the
  encoder raises \<open>UnicodeEncodeError\<close> on a surrogate.\<close>

definition surrogate :: "nat \<Rightarrow> bool" where
  "surrogate c = (55296 \<le> c \<and> c \<le> 57343)"

definition utf8_size :: "nat \<Rightarrow> nat" where
  "utf8_size c = (if c < 128 then 1 else if c < 2048 then 2 else if c < 65536 then 3 else 4)"

definition utf8_bytes :: "str \<Rightarrow> nat" where
  "utf8_bytes s = sum_list (map utf8_size s)"

definition len_encode_utf8 :: "str \<Rightarrow> py_error + nat" where
  "len_encode_utf8 s = (if list_ex surrogate s then Inl UnicodeEncodeError else Inr (utf8_bytes s))"

subsection \<open>Paths\<close>

text \<open>\<open>os.path.basename\<close> and \<open>os.path.join\<close> on POSIX paths; 47 is the slash.\<close>

definition os_path_basename :: "str \<Rightarrow> str" where
  "os_path_basename p = rev (takeWhile (\<lambda>c. c \<noteq> 47) (rev p))"

definition os_path_join :: "str \<Rightarrow> str \<Rightarrow> str" where
  "os_path_join a b =
     (if startswith b (ascii ''/'') then b
      else if a = [] \<or> endswith a (ascii ''/'') then a @ b
      else a @ ascii ''/'' @ b)"

section \<open>The single-process script\<close>

definition RAW_ROOT :: str where
  "RAW_ROOT = ascii ''remap-my-rag-source-data/raw/''"

definition PROCESSED_ROOT :: str where
  "PROCESSED_ROOT = ascii ''remap-my-rag-source-data/processed/''"

definition MAX_JSON_CHUNK_SIZE_BYTES :: nat where
  "MAX_JSON_CHUNK_SIZE_BYTES = 40 * 1024 * 1024"

subsection \<open>\<open>process_json_record\<close>\<close>

text \<open>One round of the loop over \<open>record.items()\<close>: the new \<open>narrative_parts\<close>, or the
  \<open>ValueError\<close> of a field that cannot be printed.\<close>

definition record_item :: "unicode_db \<Rightarrow> str \<times> json \<Rightarrow> str list \<Rightarrow> py_error + str list" where
  "record_item U kv narrative_parts =
     (let key = fst kv; val = snd kv in
      if key \<in> set [ascii ''id'', ascii ''timestamp'', ascii ''internal_hash''] then
        Inr narrative_parts
      else if key = ascii ''patient_details'' \<and> isinstance_dict val then
        (case py_str U (dict_get val (ascii ''patient_id'') (JStr (ascii ''Unknown''))) of
           Inl e \<Rightarrow> Inl e
         | Inr patient_id \<Rightarrow>
             (case py_str U (dict_get val (ascii ''diagnosis'') (JStr (ascii ''N/A''))) of
                Inl e \<Rightarrow> Inl e
              | Inr diagnosis \<Rightarrow>
                  Inr (narrative_parts @
                    [ascii ''Patient ID: '' @ patient_id @ ascii ''. Diagnosis: '' @ diagnosis
                       @ ascii ''.''])))
      else if isinstance_int_float_str val then
        (case py_str U val of
           Inl e \<Rightarrow> Inl e
         | Inr printed_value \<Rightarrow>
             Inr (narrative_parts @
               [ascii ''The '' @ py_title U (py_replace (ascii ''_'') (ascii '' '') key)
                  @ ascii '' is: '' @ printed_value @ ascii ''.'']))
      else Inr narrative_parts)"

text \<open>The loop over the items, left at the first error.\<close>

fun for_items :: "unicode_db \<Rightarrow> (str \<times> json) list \<Rightarrow> str list \<Rightarrow> py_error + str list" where
  "for_items U [] narrative_parts = Inr narrative_parts"
| "for_items U (kv # kvs) narrative_parts =
     (case record_item U kv narrative_parts of
        Inl e \<Rightarrow> Inl e
      | Inr narrative_parts' \<Rightarrow> for_items U kvs narrative_parts')"

text \<open>A value that is not a dict has no \<open>items\<close>: the call raises
  \<open>AttributeError\<close>.\<close>

definition process_json_record :: "unicode_db \<Rightarrow> json \<Rightarrow> str \<Rightarrow> py_error + str" where
  "process_json_record U record original_filename =
     (case record of
        JDict kvs \<Rightarrow>
          (case for_items U kvs [] of
             Inl e \<Rightarrow> Inl e
           | Inr narrative_parts \<Rightarrow>
               Inr (ascii ''SOURCE FILE: '' @ original_filename @ ascii ''. ''
                     @ join (ascii '' '') narrative_parts))
      | _ \<Rightarrow> Inl AttributeError)"

subsection \<open>\<open>write_json_chunk\<close>\<close>

text \<open>The separator \<open>"\n\n---\n\n"\<close> that joins the texts of a chunk file: two newlines
  (10), three hyphens (45), two newlines.\<close>

definition paragraph_break :: str where
  "paragraph_break = [10, 10, 45, 45, 45, 10, 10]"

definition output_filename :: "str \<Rightarrow> nat \<Rightarrow> str" where
  "output_filename base_name index =
     base_name @ ascii ''_part_'' @ format_03d index @ ascii ''.txt''"

text \<open>The file one call writes: its path and the text written to it. The file holds the
  UTF-8 encoding of the text (the files are opened on POSIX, where a newline is written
  as it is).\<close>

definition write_json_chunk :: "str \<Rightarrow> nat \<Rightarrow> str list \<Rightarrow> str \<times> str" where
  "write_json_chunk base_name index data_list =
     (let output_filepath =
            os_path_join (os_path_join PROCESSED_ROOT (ascii ''json_chunks''))
              (output_filename base_name index)
      in (output_filepath, join paragraph_break data_list))"

subsection \<open>\<open>split_and_process_jsonl\<close>\<close>

text \<open>
  The local variables of the function, and its effects: \<open>write_calls\<close> is the list of
  the calls of \<open>write_json_chunk\<close> made so far (base name, index, data list), in
  order, and \<open>printed\<close> the lines printed so far. The operating system is taken to do
  what it is asked: the input file opens (the main block checks that it exists), the
  chunk files open and take what is written, and \<open>print\<close> prints.
\<close>

record accumulator =
  current_chunk_size :: nat
  chunk_file_index :: nat
  output_data_list :: "str list"
  write_calls :: "(str \<times> nat \<times> str list) list"
  printed :: "str list"

text \<open>
  The input file is given by what the iteration over it does, step by step: it raises
  (\<open>UnicodeDecodeError\<close>, when the bytes read are not UTF-8), or it yields a line. A line
  is given by what \<open>json.loads\<close> makes of it: it raises \<open>JSONDecodeError\<close>, it raises
  another exception (\<open>RecursionError\<close> on a line nested too deeply, \<open>ValueError\<close> on an
  integer literal of more than 4300 digits), or it returns the parsed value.
\<close>

datatype loaded = JSONDecodeError | Raised py_error | Value json

datatype line = Unreadable py_error | Line loaded

text \<open>
  The body of the loop on line \<open>line_number\<close> (counted from 0, as \<open>enumerate\<close> does). Only
  \<open>JSONDecodeError\<close> is caught: any other exception of \<open>json.loads\<close>, the exceptions of
  \<open>process_json_record\<close> and the \<open>UnicodeEncodeError\<close> of \<open>rag_text.encode\<close> leave the
  loop.
\<close>

definition loop_body ::
  "unicode_db \<Rightarrow> str \<Rightarrow> str \<Rightarrow> nat \<Rightarrow> loaded \<Rightarrow> accumulator \<Rightarrow> py_error + accumulator" where
  "loop_body U input_file_path output_filename_base line_number loads s =
     (case loads of
        JSONDecodeError \<Rightarrow>
          Inr (s\<lparr>printed := printed s @
                 [ascii ''Skipped malformed JSON line in '' @ input_file_path
                    @ ascii '' at line '' @ str_nat line_number @ ascii ''.'']\<rparr>)
      | Raised e \<Rightarrow> Inl e
      | Value record \<Rightarrow>
          (case process_json_record U record (os_path_basename input_file_path) of
             Inl e \<Rightarrow> Inl e
           | Inr rag_text \<Rightarrow>
               (case len_encode_utf8 rag_text of
                  Inl e \<Rightarrow> Inl e
                | Inr encoded_length \<Rightarrow>
                    (let s1 =
                       (if current_chunk_size s + encoded_length > MAX_JSON_CHUNK_SIZE_BYTES
                             \<and> current_chunk_size s > 0
                        then s\<lparr>write_calls := write_calls s @
                                   [(output_filename_base, chunk_file_index s, output_data_list s)],
                               current_chunk_size := 0,
                               output_data_list := [],
                               chunk_file_index := chunk_file_index s + 1\<rparr>
                        else s)
                     in Inr (s1\<lparr>output_data_list := output_data_list s1 @ [rag_text],
                                current_chunk_size := current_chunk_size s1 + encoded_length\<rparr>)))))"

text \<open>The loop over the lines. When the iteration or the body raises, the result is the
  error and the state at that point: the files written before stay written.\<close>

fun for_lines ::
  "unicode_db \<Rightarrow> str \<Rightarrow> str \<Rightarrow> nat \<Rightarrow> line list \<Rightarrow> accumulator
     \<Rightarrow> (py_error \<times> accumulator) + accumulator" where
  "for_lines U input_file_path output_filename_base line_number [] s = Inr s"
| "for_lines U input_file_path output_filename_base line_number (Unreadable e # lines) s =
     Inl (e, s)"
| "for_lines U input_file_path output_filename_base line_number (Line loads # lines) s =
     (case loop_body U input_file_path output_filename_base line_number loads s of
        Inl e \<Rightarrow> Inl (e, s)
      | Inr s' \<Rightarrow>
          for_lines U input_file_path output_filename_base (line_number + 1) lines s')"

definition split_and_process_jsonl ::
  "unicode_db \<Rightarrow> str \<Rightarrow> line list \<Rightarrow> (py_error \<times> accumulator) + accumulator" where
  "split_and_process_jsonl U input_file_path infile =
     (let output_filename_base =
            py_replace (ascii ''.jsonl'') [] (os_path_basename input_file_path);
          s0 = \<lparr>current_chunk_size = 0, chunk_file_index = 0, output_data_list = [],
                write_calls = [],
                printed = [ascii ''Starting splitting and cleaning of ''
                             @ os_path_basename input_file_path @ ascii ''...'']\<rparr>
      in case for_lines U input_file_path output_filename_base 0 infile s0 of
           Inl (e, s) \<Rightarrow> Inl (e, s)
         | Inr s \<Rightarrow>
             (let s1 =
                (if output_data_list s \<noteq> []
                 then s\<lparr>write_calls := write_calls s @
                            [(output_filename_base, chunk_file_index s, output_data_list s)]\<rparr>
                 else s)
              in Inr (s1\<lparr>printed := printed s1 @
                         [ascii ''Successfully split into '' @ str_nat (chunk_file_index s1 + 1)
                            @ ascii '' smaller RAG files.'']\<rparr>)))"

text \<open>The state a run ends in, whether it returned or raised; the chunks it
  emitted (the data lists passed to \<open>write_json_chunk\<close>), and the files written.\<close>

definition final_state :: "(py_error \<times> accumulator) + accumulator \<Rightarrow> accumulator" where
  "final_state r = (case r of Inl (e, s) \<Rightarrow> s | Inr s \<Rightarrow> s)"

definition emitted_chunks :: "(py_error \<times> accumulator) + accumulator \<Rightarrow> str list list" where
  "emitted_chunks r = map (\<lambda>c. snd (snd c)) (write_calls (final_state r))"

definition written_files :: "(py_error \<times> accumulator) + accumulator \<Rightarrow> (str \<times> str) list" where
  "written_files r =
     map (\<lambda>c. write_json_chunk (fst c) (fst (snd c)) (snd (snd c))) (write_calls (final_state r))"

text \<open>The narratives of the lines that parse, in input order: what
  \<open>process_json_record\<close> returns for each of them.\<close>

definition narratives_of :: "unicode_db \<Rightarrow> str \<Rightarrow> line list \<Rightarrow> str list" where
  "narratives_of U input_file_path infile =
     concat (map (\<lambda>l. case l of
                     Line (Value record) \<Rightarrow>
                       (case process_json_record U record (os_path_basename input_file_path) of
                          Inl e \<Rightarrow> [] | Inr rag_text \<Rightarrow> [rag_text])
                   | _ \<Rightarrow> []) infile)"

subsection \<open>\<open>process_unstructured_files\<close>\<close>

datatype disposition = Quarantine | PassThrough | Deferred | Unknown

text \<open>What the body of the loop does with one file of \<open>os.walk\<close>: the branch taken,
  the \<open>os.rename\<close> it asks for (source, destination) and the line it prints.\<close>

record file_outcome =
  category :: disposition
  renamed :: "(str \<times> str) option"
  message :: "str option"

definition process_unstructured_file :: "unicode_db \<Rightarrow> str \<Rightarrow> str \<Rightarrow> file_outcome" where
  "process_unstructured_file U subdir filename =
     (let source_path = os_path_join subdir filename in
      if endswith_any (py_lower U filename)
           [ascii ''.png'', ascii ''.jpg'', ascii ''.jpeg'', ascii ''.gif''] then
        \<lparr>category = Quarantine,
         renamed = Some (source_path,
           os_path_join (os_path_join PROCESSED_ROOT (ascii ''unsupported_files'')) filename),
         message = Some (ascii ''  [QUARANTINED] Image file '' @ filename @ ascii ''.'')\<rparr>
      else if endswith_any (py_lower U filename)
                [ascii ''.docx'', ascii ''.pdf'', ascii ''.xlsx'', ascii ''.pptx'', ascii ''.eml''] then
        \<lparr>category = PassThrough,
         renamed = Some (source_path,
           os_path_join (os_path_join PROCESSED_ROOT (ascii ''documents'')) filename),
         message = Some (ascii ''  [CLEANED] Document '' @ filename
                           @ ascii '' moved to /processed/documents.'')\<rparr>
      else if endswith (py_lower U filename) (ascii ''.jsonl'')
                \<and> contains (ascii ''json/'') subdir then
        \<lparr>category = Deferred, renamed = None, message = None\<rparr>
      else
        \<lparr>category = Unknown, renamed = None,
         message = Some (ascii ''  [SKIPPED] Unknown file type '' @ filename @ ascii ''.'')\<rparr>)"

text \<open>The whole function, on what \<open>os.walk(RAW_ROOT)\<close> yields: the directories in
  order, each with the names of its files.\<close>

definition process_unstructured_files ::
  "unicode_db \<Rightarrow> (str \<times> str list) list \<Rightarrow> file_outcome list" where
  "process_unstructured_files U walk =
     concat (map (\<lambda>(subdir, files). map (process_unstructured_file U subdir) files) walk)"

text \<open>The path of the large file, as the main block builds it.\<close>

definition jsonl_path :: str where
  "jsonl_path =
     os_path_join (os_path_join RAW_ROOT (ascii ''json'')) (ascii ''large_raw_data.jsonl'')"

section \<open>The distributed job\<close>

text \<open>The redaction step of \<open>process_content_udf\<close>, and the whole treatment of one
  row (content, extension) of the series.\<close>

definition redaction :: "unicode_db \<Rightarrow> str \<Rightarrow> str" where
  "redaction U text =
     (if contains (ascii ''patient'') (py_lower U text) \<or> contains (ascii ''ssn'') (py_lower U text)
      then ascii ''[HIPAA REDACTION APPLIED] ''
             @ py_replace (ascii ''John Smith'') (ascii ''[PHI_NAME_MASKED]'') text
      else text)"

definition process_content :: "unicode_db \<Rightarrow> str \<Rightarrow> str \<Rightarrow> str" where
  "process_content U content ext =
     redaction U
       (if ext \<in> set [ascii ''.docx'', ascii ''.pptx''] then
          ascii ''DOCUMENT TEXT EXTRACTED: '' @ take 500 content @ ascii ''...''
        else if ext \<in> set [ascii ''.xlsx'', ascii ''.csv''] then
          ascii ''TABULAR DATA NARRATIVE: Summary of sheet: '' @ take 500 content @ ascii ''...''
        else content)"

definition process_content_udf :: "unicode_db \<Rightarrow> str list \<Rightarrow> str list \<Rightarrow> str list" where
  "process_content_udf U file_content file_extension =
     map (\<lambda>(content, ext). process_content U content ext) (zip file_content file_extension)"

section \<open>Notions used to state the properties\<close>

text \<open>The byte size of a chunk: the sum of the encoded lengths of its texts,
  separators not counted. This is what \<open>current_chunk_size\<close> adds up.\<close>

definition chunk_bytes :: "str list \<Rightarrow> nat" where
  "chunk_bytes data_list = sum_list (map utf8_bytes data_list)"

text \<open>The size bound of a chunk: within the ceiling, or a single text that is over
  the ceiling by itself.\<close>

definition size_bound :: "str list \<Rightarrow> bool" where
  "size_bound c =
     (chunk_bytes c \<le> MAX_JSON_CHUNK_SIZE_BYTES
      \<or> (length c = 1 \<and> chunk_bytes c > MAX_JSON_CHUNK_SIZE_BYTES))"

text \<open>A text that UTF-8 can encode: it holds no surrogate.\<close>

definition encodable :: "str \<Rightarrow> bool" where
  "encodable s = (\<not> list_ex surrogate s)"

text \<open>The two steps of the loop body that follow \<open>process_json_record\<close>, for its
  result \<open>rag_text\<close> when it can be encoded: the roll-over when the text does not fit,
  then the append.\<close>

definition append_text :: "str \<Rightarrow> str \<Rightarrow> accumulator \<Rightarrow> accumulator" where
  "append_text output_filename_base rag_text s =
     (if current_chunk_size s + utf8_bytes rag_text > MAX_JSON_CHUNK_SIZE_BYTES
           \<and> current_chunk_size s > 0
      then s\<lparr>write_calls := write_calls s @
                 [(output_filename_base, chunk_file_index s, output_data_list s)],
             current_chunk_size := utf8_bytes rag_text,
             output_data_list := [rag_text],
             chunk_file_index := chunk_file_index s + 1\<rparr>
      else s\<lparr>output_data_list := output_data_list s @ [rag_text],
             current_chunk_size := current_chunk_size s + utf8_bytes rag_text\<rparr>)"

text \<open>The end of the function, after the loop: the trailing chunk and the last
  line printed.\<close>

definition finish :: "str \<Rightarrow> accumulator \<Rightarrow> accumulator" where
  "finish output_filename_base s =
     (let s1 =
        (if output_data_list s \<noteq> []
         then s\<lparr>write_calls := write_calls s @
                    [(output_filename_base, chunk_file_index s, output_data_list s)]\<rparr>
         else s)
      in s1\<lparr>printed := printed s1 @
               [ascii ''Successfully split into '' @ str_nat (chunk_file_index s1 + 1)
                  @ ascii '' smaller RAG files.'']\<rparr>)"

definition start :: "str \<Rightarrow> accumulator" where
  "start input_file_path =
     \<lparr>current_chunk_size = 0, chunk_file_index = 0, output_data_list = [],
      write_calls = [],
      printed = [ascii ''Starting splitting and cleaning of ''
                   @ os_path_basename input_file_path @ ascii ''...'']\<rparr>"

definition skipped_message :: "str \<Rightarrow> nat \<Rightarrow> str" where
  "skipped_message input_file_path line_number =
     ascii ''Skipped malformed JSON line in '' @ input_file_path @ ascii '' at line ''
       @ str_nat line_number @ ascii ''.''"

text \<open>Invariants of the loop: the counter is the byte size of the buffered texts,
  none of which is empty; the buffer and every chunk written keep the size bound, and
  no chunk written is empty; the chunks written carry the indices \<open>0, 1, 2, ...\<close>
  under the one base name; every text buffered or written is one that UTF-8 can encode
  (it was encoded before it was appended), so that writing a chunk file cannot fail on
  its text.\<close>

definition counted :: "accumulator \<Rightarrow> bool" where
  "counted s =
     (current_chunk_size s = chunk_bytes (output_data_list s)
      \<and> [] \<notin> set (output_data_list s))"

definition bounded :: "accumulator \<Rightarrow> bool" where
  "bounded s =
     (size_bound (output_data_list s)
      \<and> list_all (\<lambda>c. size_bound (snd (snd c)) \<and> snd (snd c) \<noteq> []) (write_calls s))"

definition numbered :: "str \<Rightarrow> accumulator \<Rightarrow> bool" where
  "numbered b s =
     (map (\<lambda>c. (fst c, fst (snd c))) (write_calls s)
        = map (\<lambda>i. (b, i)) [0..<chunk_file_index s])"

definition encoded :: "accumulator \<Rightarrow> bool" where
  "encoded s =
     (list_all encodable (output_data_list s)
      \<and> list_all (\<lambda>c. list_all encodable (snd (snd c))) (write_calls s))"

definition run_inv :: "str \<Rightarrow> accumulator \<Rightarrow> bool" where
  "run_inv b s = (counted s \<and> bounded s \<and> numbered b s \<and> encoded s)"

definition chunks_of :: "accumulator \<Rightarrow> str list list" where
  "chunks_of s = map (\<lambda>c. snd (snd c)) (write_calls s)"

text \<open>A step of the input that the loop gets past: the iteration yields a line, and
  either \<open>json.loads\<close> raises \<open>JSONDecodeError\<close> on it (the line is skipped), or it returns
  a value for which \<open>process_json_record\<close> returns a narrative that UTF-8 can encode.\<close>

definition line_passes :: "unicode_db \<Rightarrow> str \<Rightarrow> line \<Rightarrow> bool" where
  "line_passes U input_file_path l =
     (case l of
        Line JSONDecodeError \<Rightarrow> True
      | Line (Value record) \<Rightarrow>
          (case process_json_record U record (os_path_basename input_file_path) of
             Inl e \<Rightarrow> False
           | Inr rag_text \<Rightarrow> encodable rag_text)
      | _ \<Rightarrow> False)"

text \<open>The narratives a run has dropped: those still in the buffer when the run raises.
  They are in no file, as the trailing chunk is written after the loop only.\<close>

definition dropped :: "(py_error \<times> accumulator) + accumulator \<Rightarrow> str list" where
  "dropped r = (case r of Inl (e, s) \<Rightarrow> output_data_list s | Inr s \<Rightarrow> [])"

text \<open>The names of the files a run wrote, in the order of the calls.\<close>

definition written_names :: "(py_error \<times> accumulator) + accumulator \<Rightarrow> str list" where
  "written_names r =
     map (\<lambda>c. output_filename (fst c) (fst (snd c))) (write_calls (final_state r))"

text \<open>The order of Python's \<open><\<close> on strings: lexicographic, by code point.\<close>

fun lex_less :: "str \<Rightarrow> str \<Rightarrow> bool" where
  "lex_less [] [] = False"
| "lex_less [] (y # ys) = True"
| "lex_less (x # xs) [] = False"
| "lex_less (x # xs) (y # ys) = (x < y \<or> (x = y \<and> lex_less xs ys))"

text \<open>Two states that differ at most in the lines printed, and two outcomes of a
  run that agree up to the lines printed.\<close>

definition same_data :: "accumulator \<Rightarrow> accumulator \<Rightarrow> bool" where
  "same_data s s' =
     (current_chunk_size s = current_chunk_size s'
      \<and> chunk_file_index s = chunk_file_index s'
      \<and> output_data_list s = output_data_list s'
      \<and> write_calls s = write_calls s')"


text \<open>
  The narrative as the specification words it, to be compared with
  \<open>process_json_record\<close>. A field contributes at most one sentence: none under a reserved
  key; the labelled sentence for a mapping under the key \<open>patient_details\<close>, with
  placeholders for the sub-fields that are missing; the sentence \<open>The {field} is: {value}.\<close>
  for a number or a text (an int, a float or a str; a bool is an int in Python), the field
  name with its underscores (95) turned into spaces (32) and title cased; none for anything
  else. The sentences are joined by single spaces after the tag of the source file.

  Title casing is worded position by position: the character at a position is lowered
  when the character before it is cased, and title-cased otherwise. A value is printed
  as \<open>str\<close> prints it.
\<close>

definition reserved_keys :: "str list" where
  "reserved_keys = [ascii ''id'', ascii ''timestamp'', ascii ''internal_hash'']"

definition title_cased :: "unicode_db \<Rightarrow> str \<Rightarrow> str" where
  "title_cased U s =
     concat (map (\<lambda>i. if 0 < i \<and> is_cased U (s ! (i - 1)) then lower_at U s i (s ! i)
                       else to_title U (s ! i)) [0..<length s])"

definition field_label :: "unicode_db \<Rightarrow> str \<Rightarrow> str" where
  "field_label U key = title_cased U (map (\<lambda>c. if c = 95 then 32 else c) key)"

definition sub_field :: "unicode_db \<Rightarrow> (str \<times> json) list \<Rightarrow> str \<Rightarrow> str \<Rightarrow> py_error + str" where
  "sub_field U d name placeholder =
     (case map_of d name of None \<Rightarrow> Inr placeholder | Some v \<Rightarrow> py_str U v)"

definition scalar_sentence :: "unicode_db \<Rightarrow> str \<Rightarrow> str \<Rightarrow> str" where
  "scalar_sentence U key printed_value =
     ascii ''The '' @ field_label U key @ ascii '' is: '' @ printed_value @ ascii ''.''"

fun rendered_field :: "unicode_db \<Rightarrow> str \<Rightarrow> json \<Rightarrow> py_error + str list" where
  "rendered_field U key (JDict d) =
     (if key = ascii ''patient_details''
      then (case sub_field U d (ascii ''patient_id'') (ascii ''Unknown'') of
              Inl e \<Rightarrow> Inl e
            | Inr patient_id \<Rightarrow>
                (case sub_field U d (ascii ''diagnosis'') (ascii ''N/A'') of
                   Inl e \<Rightarrow> Inl e
                 | Inr diagnosis \<Rightarrow>
                     Inr [ascii ''Patient ID: '' @ patient_id @ ascii ''. Diagnosis: ''
                            @ diagnosis @ ascii ''.'']))
      else Inr [])"
| "rendered_field U key (JInt i) =
     (case str_int i of Inl e \<Rightarrow> Inl e | Inr digits \<Rightarrow> Inr [scalar_sentence U key digits])"
| "rendered_field U key (JBool b) =
     Inr [scalar_sentence U key (if b then ascii ''True'' else ascii ''False'')]"
| "rendered_field U key (JFloat f) = Inr [scalar_sentence U key f]"
| "rendered_field U key (JStr s) = Inr [scalar_sentence U key s]"
| "rendered_field U key JNull = Inr []"
| "rendered_field U key (JList vs) = Inr []"

definition rendered_sentences :: "unicode_db \<Rightarrow> (str \<times> json) list \<Rightarrow> py_error + str list" where
  "rendered_sentences U kvs =
     (case all_of (map (\<lambda>kv. rendered_field U (fst kv) (snd kv))
                     (filter (\<lambda>kv. fst kv \<notin> set reserved_keys) kvs)) of
        Inl e \<Rightarrow> Inl e
      | Inr sentences \<Rightarrow> Inr (concat sentences))"





text \<open>A field that is not reserved and whose value is neither an int, a float or a
  str, nor a dict under the key \<open>patient_details\<close>.\<close>

definition ignored_field :: "str \<times> json \<Rightarrow> bool" where
  "ignored_field kv =
     (fst kv \<notin> set [ascii ''id'', ascii ''timestamp'', ascii ''internal_hash'']
      \<and> \<not> isinstance_int_float_str (snd kv)
      \<and> \<not> (fst kv = ascii ''patient_details'' \<and> isinstance_dict (snd kv)))"

text \<open>
  The classification as the specification words it, to be compared with
  \<open>process_unstructured_file\<close>: a lookup of the derived extension of the file (the part of
  the lower-cased name from its last dot (46) on; empty when it has no dot) in the fixed
  table, the first match winning.
\<close>

definition derived_extension :: "unicode_db \<Rightarrow> str \<Rightarrow> str" where
  "derived_extension U filename =
     (if 46 \<in> set (py_lower U filename)
      then 46 # rev (takeWhile (\<lambda>c. c \<noteq> 46) (rev (py_lower U filename)))
      else [])"

definition classify_by_extension :: "unicode_db \<Rightarrow> str \<Rightarrow> str \<Rightarrow> disposition" where
  "classify_by_extension U subdir filename =
     (if derived_extension U filename
           \<in> set [ascii ''.png'', ascii ''.jpg'', ascii ''.jpeg'', ascii ''.gif''] then Quarantine
      else if derived_extension U filename
           \<in> set [ascii ''.docx'', ascii ''.pdf'', ascii ''.xlsx'', ascii ''.pptx'', ascii ''.eml'']
        then PassThrough
      else if derived_extension U filename = ascii ''.jsonl'' \<and> contains (ascii ''json/'') subdir
        then Deferred
      else Unknown)"

section \<open>Example inputs\<close>

text \<open>
  An excerpt of the Unicode database, for the examples: the letters e with acute (233) and
  E with acute (201) map to each other, the sharp s (223) has the title case \<open>Ss\<close>, and the
  no-break space (160), the next-line control (133), the zero-width space (8203), the
  surrogates and the tag character 917505 are not printable.
\<close>

definition example_db :: unicode_db where
  "example_db =
     \<lparr>lower_full = (\<lambda>s i. if s ! i = 201 then [233] else [s ! i]),
      title_full = (\<lambda>c. if c = 233 then [201] else if c = 223 then [83, 115] else [c]),
      cased = (\<lambda>c. c \<in> set [201, 223, 233]),
      printable = (\<lambda>c. c \<notin> set [133, 160, 8203, 917505] \<and> \<not> surrogate c)\<rparr>"

text \<open>The path of the input file, and records whose narratives for that file
  encode to a given number of bytes (20 MB, 5 MB, 45 MB): the narrative of a record with
  the one field \<open>body\<close> is 49 bytes longer than the value of the field, here a
  repeated ASCII character \<open>c\<close>.\<close>

definition record_of_size :: "nat \<Rightarrow> nat \<Rightarrow> json" where
  "record_of_size c n = JDict [(ascii ''body'', JStr (replicate (n - 49) c))]"

definition narrative_of_size :: "nat \<Rightarrow> nat \<Rightarrow> str" where
  "narrative_of_size c n =
     ascii ''SOURCE FILE: large_raw_data.jsonl. The Body is: '' @ replicate (n - 49) c @ ascii ''.''"

section \<open>The string operations on examples\<close>

text \<open>The equations of \<open>str_nat\<close> and \<open>py_replace\<close> are unfolded on request only.\<close>

declare str_nat.simps [simp del]

declare py_replace.simps [simp del]

lemmas case_eval =
  py_lower_def py_title_def lower_at_def to_title_def is_cased_def ascii_cased_def
  ascii_lower_def ascii_title_def

lemmas repr_eval =
  py_str_def repr_str_def repr_quote_def repr_char_def is_printable_def hex_char_def
  str_int_def str_nat.simps digit_char_def int_max_str_digits_def

text \<open>The ASCII tables, by the numbers of the code points: the capitals are 65 to 90,
  the small letters 97 to 122, 32 apart.\<close>

lemma capitals: "ascii ''ABCDEFGHIJKLMNOPQRSTUVWXYZ'' = [65..<65 + 26]"
  by (simp add: ascii_def upt_rec)

lemma small_letters: "ascii ''abcdefghijklmnopqrstuvwxyz'' = [97..<97 + 26]"
  by (simp add: ascii_def upt_rec)

lemma map_of_zip_upt:
  "map_of (zip [a..<a + n] [b..<b + n]) c
     = (if a \<le> c \<and> c < a + n then Some (b + (c - a)) else None)"
proof (induction n arbitrary: a b)
  case 0
  then show ?case by simp
next
  case (Suc n)
  have a: "[a..<a + Suc n] = a # [Suc a..<Suc a + n]"
    by (simp add: upt_conv_Cons)
  have b: "[b..<b + Suc n] = b # [Suc b..<Suc b + n]"
    by (simp add: upt_conv_Cons)
  show ?case
    unfolding a b using Suc.IH [of "Suc a" "Suc b"] by auto
qed

lemma ascii_cased_range: "ascii_cased c = ((65 \<le> c \<and> c \<le> 90) \<or> (97 \<le> c \<and> c \<le> 122))"
  unfolding ascii_cased_def capitals small_letters set_upt by auto

lemma ascii_lower_range: "ascii_lower c = (if 65 \<le> c \<and> c \<le> 90 then c + 32 else c)"
  unfolding ascii_lower_def capitals small_letters map_of_zip_upt by auto

lemma ascii_title_range: "ascii_title c = (if 97 \<le> c \<and> c \<le> 122 then c - 32 else c)"
  unfolding ascii_title_def capitals small_letters map_of_zip_upt by auto

text \<open>\<open>lower\<close> and \<open>title\<close>, as Python evaluates them: \<open>'firstName'.title()\<close> is
  \<open>'Firstname'\<close>, a digit, an underscore and an apostrophe start a new word; with the
  excerpt of the database, \<open>'\<dots>mile_zola'\<close> gets its capital E with acute, and a sharp s
  that starts a word becomes \<open>Ss\<close>.\<close>

lemma py_lower_examples:
  "py_lower U (ascii ''Hello, WORLD_42 [x] @ `{z} AZaz'') = ascii ''hello, world_42 [x] @ `{z} azaz''"
  "py_lower U (ascii ''photo.JPG'') = ascii ''photo.jpg''"
  "py_lower example_db ([201] @ ascii ''COLE'') = [233] @ ascii ''cole''"
  by (simp_all add: case_eval ascii_def example_db_def)

lemma py_title_examples:
  "py_title U (ascii ''firstName'') = ascii ''Firstname''"
  "py_title U (ascii ''first name'') = ascii ''First Name''"
  "py_title U (ascii ''first_name x2y o'neil ABC'') = ascii ''First_Name X2Y O'Neil Abc''"
  "py_title U [] = []"
  "py_title example_db ([233] @ ascii ''mile zola'') = [201] @ ascii ''mile Zola''"
  "py_title example_db ([223] @ ascii ''a '' @ [201, 201]) = ascii ''Ssa '' @ [201, 233]"
  by (simp_all add: case_eval ascii_def example_db_def)

text \<open>\<open>str\<close> and \<open>repr\<close>, as Python evaluates them. In the second text below the code
  points are: a, no-break space, next line, zero-width space, a tag character, e with
  acute, tab, newline, carriage return, the control 1, delete, backslash, the two quotes,
  a lone surrogate and an emoji.\<close>

lemma repr_str_examples:
  "repr_str U (ascii ''Ann'') = [39] @ ascii ''Ann'' @ [39]"
  "repr_str U (ascii ''it's'') = [34] @ ascii ''it's'' @ [34]"
  "repr_str U (ascii ''say '' @ [34] @ ascii ''hi'' @ [34]) = [39] @ ascii ''say '' @ [34] @ ascii ''hi'' @ [34] @ [39]"
  "repr_str U [] = [39, 39]"
  "repr_str example_db
     [97, 160, 133, 8203, 917505, 233, 9, 10, 13, 1, 127, 92, 39, 34, 55296, 128512]
   = [39] @ ascii ''a'' @ [92] @ ascii ''xa0'' @ [92] @ ascii ''x85'' @ [92] @ ascii ''u200b''
       @ [92] @ ascii ''U000e0001'' @ [233] @ [92] @ ascii ''t'' @ [92] @ ascii ''n''
       @ [92] @ ascii ''r'' @ [92] @ ascii ''x01'' @ [92] @ ascii ''x7f'' @ [92, 92]
       @ [92, 39] @ [34] @ [92] @ ascii ''ud800'' @ [128512] @ [39]"
  by (simp_all add: repr_eval ascii_def example_db_def surrogate_def)

lemma str_int_examples:
  "str_int 0 = Inr (ascii ''0'')"
  "str_int 41 = Inr (ascii ''41'')"
  "str_int (- 1203) = Inr (ascii ''-1203'')"
  "str_nat 1000 = ascii ''1000''"
  by (simp_all add: repr_eval ascii_def)

lemma py_str_examples:
  "py_str U (JStr (ascii ''it's'')) = Inr (ascii ''it's'')"
  "py_str U JNull = Inr (ascii ''None'')"
  "py_str U (JBool True) = Inr (ascii ''True'')"
  "py_str U (JBool False) = Inr (ascii ''False'')"
  "py_str U (JFloat (ascii ''1.5'')) = Inr (ascii ''1.5'')"
  "py_str U (JList []) = Inr (ascii ''[]'')"
  "py_str U (JDict []) = Inr (ascii ''{}'')"
  "py_str U (JList [JInt 1, JStr (ascii ''a''), JList [JNull, JBool True], JFloat (ascii ''2.0'')])
     = Inr (ascii ''[1, 'a', [None, True], 2.0]'')"
  "py_str U (JDict [(ascii ''k'', JStr (ascii ''it's'')), (ascii ''n'', JInt (- 7))])
     = Inr (ascii ''{'k': '' @ [34] @ ascii ''it's'' @ [34] @ ascii '', 'n': -7}'')"
  by (simp_all add: repr_eval ascii_def)

lemma format_03d_examples:
  "format_03d 0 = ascii ''000''"
  "format_03d 7 = ascii ''007''"
  "format_03d 42 = ascii ''042''"
  "format_03d 999 = ascii ''999''"
  "format_03d 1000 = ascii ''1000''"
  by (simp_all add: format_03d_def str_nat.simps digit_char_def ascii_def numeral_2_eq_2)

lemma string_method_examples:
  "join (ascii '', '') [ascii ''a'', ascii ''b'', ascii ''c''] = ascii ''a, b, c''"
  "join (ascii '' '') [] = []"
  "py_replace (ascii ''_'') (ascii '' '') (ascii ''_first__name_'') = ascii '' first  name ''"
  "py_replace (ascii ''.jsonl'') [] (ascii ''a.jsonl.b.jsonl'') = ascii ''a.b''"
  "py_replace (ascii ''aa'') (ascii ''b'') (ascii ''aaa'') = ascii ''ba''"
  "startswith (ascii ''/tmp'') (ascii ''/'')"
  "\<not> startswith (ascii ''tmp/'') (ascii ''/'')"
  "endswith (ascii ''photo.jpg'') (ascii ''.jpg'')"
  "\<not> endswith (ascii ''jpg'') (ascii ''.jpg'')"
  "endswith_any (ascii ''a.gif'') [ascii ''.png'', ascii ''.gif'']"
  "contains (ascii ''json/'') (ascii ''raw/json/2024'')"
  "\<not> contains (ascii ''json/'') (ascii ''raw/json'')"
  by (simp_all add: py_replace.simps startswith_def endswith_def endswith_any_def ascii_def)

lemma path_examples:
  "os_path_basename (ascii ''raw/json/large_raw_data.jsonl'') = ascii ''large_raw_data.jsonl''"
  "os_path_basename (ascii ''data.jsonl'') = ascii ''data.jsonl''"
  "os_path_basename (ascii ''raw/json/'') = []"
  "os_path_join (ascii ''raw/'') (ascii ''json'') = ascii ''raw/json''"
  "os_path_join (ascii ''raw/json'') (ascii ''a.txt'') = ascii ''raw/json/a.txt''"
  "os_path_join (ascii ''raw'') (ascii ''/abs'') = ascii ''/abs''"
  by (simp_all add: os_path_basename_def os_path_join_def startswith_def endswith_def ascii_def)

text \<open>UTF-8: one byte up to 127, two up to 2047, three up to 65535, four above; the
  surrogates 55296 to 57343 cannot be encoded.\<close>

lemma utf8_examples:
  "map utf8_size [0, 127, 128, 2047, 2048, 65535, 65536, 1114111] = [1, 1, 2, 2, 3, 3, 4, 4]"
  "len_encode_utf8 (ascii ''abc'' @ [233, 8364, 128512]) = Inr 12"
  "len_encode_utf8 [] = Inr 0"
  "len_encode_utf8 (ascii ''a'' @ [55296]) = Inl UnicodeEncodeError"
  "len_encode_utf8 [57343] = Inl UnicodeEncodeError"
  "len_encode_utf8 [55295, 57344] = Inr 6"
  by (simp_all add: len_encode_utf8_def utf8_bytes_def utf8_size_def surrogate_def ascii_def)

text \<open>A row of the distributed job: the text is cut to 500 code points, wrapped, and
  redacted when it names a patient.\<close>

lemma process_content_examples:
  "process_content U (ascii ''Patient John Smith'') (ascii ''.docx'')
     = ascii ''[HIPAA REDACTION APPLIED] DOCUMENT TEXT EXTRACTED: Patient [PHI_NAME_MASKED]...''"
  "process_content U (ascii ''a,b'') (ascii ''.csv'')
     = ascii ''TABULAR DATA NARRATIVE: Summary of sheet: a,b...''"
  "process_content U (ascii ''John Smith'') (ascii ''.txt'') = ascii ''John Smith''"
  "process_content U (ascii ''SSN of John Smith'') (ascii ''.txt'')
     = ascii ''[HIPAA REDACTION APPLIED] SSN of [PHI_NAME_MASKED]''"
  "process_content_udf U [ascii ''a'', ascii ''b''] [ascii ''.txt'', ascii ''.pdf''] = [ascii ''a'', ascii ''b'']"
  by (simp_all add: process_content_udf_def process_content_def redaction_def py_lower_def
        lower_at_def ascii_lower_def startswith_def py_replace.simps ascii_def)

section \<open>Decimal numerals and chunk file names\<close>

lemma digit_char_code: "d < 10 \<Longrightarrow> digit_char d = 48 + d"
proof -
  assume "d < 10"
  then have "d = 0 \<or> d = 1 \<or> d = 2 \<or> d = 3 \<or> d = 4 \<or> d = 5 \<or> d = 6 \<or> d = 7 \<or> d = 8 \<or> d = 9"
    by arith
  then show ?thesis
    by (elim disjE) (simp_all add: digit_char_def ascii_def)
qed

lemma str_nat_one_digit: "n < 10 \<Longrightarrow> str_nat n = [digit_char n]"
  by (simp add: str_nat.simps)

lemma str_nat_two_digits:
  assumes "10 \<le> n" and "n < 100"
  shows "str_nat n = [digit_char (n div 10), digit_char (n mod 10)]"
proof -
  have "n div 10 < 10" using assms by simp
  then have "str_nat (n div 10) = [digit_char (n div 10)]" by (rule str_nat_one_digit)
  moreover have "str_nat n = str_nat (n div 10) @ [digit_char (n mod 10)]"
    using assms by (subst str_nat.simps) simp
  ultimately show ?thesis by simp
qed

lemma str_nat_three_digits:
  assumes "100 \<le> n" and "n < 1000"
  shows "str_nat n = [digit_char (n div 100), digit_char (n div 10 mod 10), digit_char (n mod 10)]"
proof -
  have "10 \<le> n div 10" and "n div 10 < 100" using assms by simp_all
  then have "str_nat (n div 10) = [digit_char (n div 10 div 10), digit_char (n div 10 mod 10)]"
    by (rule str_nat_two_digits)
  moreover have "n div 10 div 10 = n div 100" by (simp add: div_mult2_eq [symmetric])
  moreover have "str_nat n = str_nat (n div 10) @ [digit_char (n mod 10)]"
    using assms by (subst str_nat.simps) simp
  ultimately show ?thesis by simp
qed

lemma format_03d_three_digits:
  assumes "n < 1000"
  shows "format_03d n = [digit_char (n div 100), digit_char (n div 10 mod 10), digit_char (n mod 10)]"
proof -
  consider "n < 10" | "10 \<le> n" "n < 100" | "100 \<le> n" "n < 1000"
    using assms by linarith
  then show ?thesis
  proof cases
    case 1
    then show ?thesis
      by (simp add: format_03d_def str_nat_one_digit numeral_2_eq_2)
  next
    case 2
    then have "n div 100 = 0" by simp
    moreover have "n div 10 mod 10 = n div 10" using 2 by simp
    ultimately show ?thesis using 2
      by (simp add: format_03d_def str_nat_two_digits)
  next
    case 3
    then show ?thesis
      by (simp add: format_03d_def str_nat_three_digits)
  qed
qed

lemma format_03d_0 [simp]: "format_03d 0 = ascii ''000''"
  by (simp add: format_03d_three_digits digit_char_def ascii_def)

lemma format_03d_1 [simp]: "format_03d (Suc 0) = ascii ''001''"
  by (simp add: format_03d_three_digits digit_char_def ascii_def)


section \<open>UTF-8 lengths\<close>

lemma utf8_bytes_simps [simp]:
  "utf8_bytes [] = 0"
  "utf8_bytes (c # s) = utf8_size c + utf8_bytes s"
  "utf8_bytes (s @ t) = utf8_bytes s + utf8_bytes t"
  by (simp_all add: utf8_bytes_def)

lemma utf8_size_positive: "0 < utf8_size c"
  by (simp add: utf8_size_def)

lemma utf8_bytes_positive: "s \<noteq> [] \<Longrightarrow> 0 < utf8_bytes s"
  by (cases s) (simp_all add: utf8_size_def)

lemma utf8_bytes_replicate: "utf8_bytes (replicate n c) = n * utf8_size c"
  by (induction n) simp_all

lemma utf8_bytes_ascii: "\<forall>c \<in> set s. c < 128 \<Longrightarrow> utf8_bytes s = length s"
  by (induction s) (simp_all add: utf8_size_def)

lemma encodable_simps [simp]:
  "encodable []"
  "encodable (c # s) = (\<not> surrogate c \<and> encodable s)"
  "encodable (s @ t) = (encodable s \<and> encodable t)"
  by (auto simp: encodable_def)

lemma encodable_replicate: "\<not> surrogate c \<Longrightarrow> encodable (replicate n c)"
  by (induction n) simp_all

lemma len_encode_utf8_encodable:
  "len_encode_utf8 s = (if encodable s then Inr (utf8_bytes s) else Inl UnicodeEncodeError)"
  by (simp add: len_encode_utf8_def encodable_def)

section \<open>Lemmas on narratives and on the loop body\<close>

lemma process_json_record_dict:
  "process_json_record U (JDict kvs) fn =
     (case for_items U kvs [] of
        Inl e \<Rightarrow> Inl e
      | Inr parts \<Rightarrow> Inr (ascii ''SOURCE FILE: '' @ fn @ ascii ''. '' @ join (ascii '' '') parts))"
  by (simp add: process_json_record_def)

lemma narrative_nonempty: "process_json_record U r fn = Inr t \<Longrightarrow> t \<noteq> []"
  by (cases r) (auto simp: process_json_record_def ascii_def split: sum.splits)

lemma chunk_bytes_simps [simp]:
  "chunk_bytes [] = 0"
  "chunk_bytes (t # ts) = utf8_bytes t + chunk_bytes ts"
  "chunk_bytes (ts @ us) = chunk_bytes ts + chunk_bytes us"
  by (simp_all add: chunk_bytes_def)

lemma chunk_bytes_zero: "[] \<notin> set ts \<Longrightarrow> (chunk_bytes ts = 0) = (ts = [])"
proof (cases ts)
  case Nil
  then show ?thesis by simp
next
  case (Cons t us)
  assume "[] \<notin> set ts"
  then have "t \<noteq> []" using Cons by auto
  then have "0 < utf8_bytes t" by (rule utf8_bytes_positive)
  then show ?thesis using Cons by simp
qed

lemma chunk_bytes_member: "t \<in> set c \<Longrightarrow> utf8_bytes t \<le> chunk_bytes c"
  by (induction c) auto

lemma loop_body_JSONDecodeError:
  "loop_body U p b n JSONDecodeError s = Inr (s\<lparr>printed := printed s @ [skipped_message p n]\<rparr>)"
  by (simp add: loop_body_def skipped_message_def)

lemma loop_body_Raised: "loop_body U p b n (Raised e) s = Inl e"
  by (simp add: loop_body_def)

lemma loop_body_Value:
  "loop_body U p b n (Value r) s =
     (case process_json_record U r (os_path_basename p) of
        Inl e \<Rightarrow> Inl e
      | Inr t \<Rightarrow> if encodable t then Inr (append_text b t s) else Inl UnicodeEncodeError)"
  by (simp add: loop_body_def append_text_def Let_def len_encode_utf8_encodable split: sum.split)

lemma split_and_process_jsonl_unfold:
  "split_and_process_jsonl U p ls =
     (case for_lines U p (py_replace (ascii ''.jsonl'') [] (os_path_basename p)) 0 ls (start p) of
        Inl (e, s) \<Rightarrow> Inl (e, s)
      | Inr s \<Rightarrow> Inr (finish (py_replace (ascii ''.jsonl'') [] (os_path_basename p)) s))"
  by (simp add: split_and_process_jsonl_def start_def finish_def Let_def
        split: sum.split prod.split)

text \<open>What a round of the loop that does not raise does to the state: it prints the
  line of a skipped line, or it appends a narrative.\<close>

lemma loop_body_cases:
  assumes "loop_body U p b n l s = Inr s'"
  obtains "l = JSONDecodeError" and "s' = s\<lparr>printed := printed s @ [skipped_message p n]\<rparr>"
  | r t where "l = Value r" and "process_json_record U r (os_path_basename p) = Inr t"
      and "encodable t" and "s' = append_text b t s"
proof (cases l)
  case JSONDecodeError
  then show ?thesis using assms that(1) by (simp add: loop_body_JSONDecodeError)
next
  case (Raised e)
  then show ?thesis using assms by (simp add: loop_body_Raised)
next
  case (Value r)
  show ?thesis
  proof (cases "process_json_record U r (os_path_basename p)")
    case (Inl e)
    then show ?thesis using assms Value by (simp add: loop_body_Value)
  next
    case (Inr t)
    show ?thesis
    proof (cases "encodable t")
      case True
      then show ?thesis using assms Value Inr that(2) by (simp add: loop_body_Value)
    next
      case False
      then show ?thesis using assms Value Inr by (simp add: loop_body_Value)
    qed
  qed
qed

lemma append_text_counted:
  assumes "counted s" and "t \<noteq> []"
  shows "counted (append_text b t s)"
proof (cases "current_chunk_size s + utf8_bytes t > MAX_JSON_CHUNK_SIZE_BYTES \<and> current_chunk_size s > 0")
  case True
  then show ?thesis using assms by (simp add: append_text_def counted_def)
next
  case False
  then show ?thesis using assms by (simp add: append_text_def counted_def)
qed

lemma append_text_bounded:
  assumes "counted s" and "bounded s"
  shows "bounded (append_text b t s)"
proof (cases "current_chunk_size s + utf8_bytes t > MAX_JSON_CHUNK_SIZE_BYTES \<and> current_chunk_size s > 0")
  case True
  have "output_data_list s \<noteq> []"
    using True assms(1) by (auto simp: counted_def)
  then show ?thesis using True assms
    by (auto simp add: append_text_def bounded_def size_bound_def)
next
  case False
  show ?thesis
  proof (cases "current_chunk_size s = 0")
    case True
    then have "output_data_list s = []"
      using assms(1) chunk_bytes_zero by (auto simp: counted_def)
    then show ?thesis using False True assms
      by (auto simp add: append_text_def bounded_def size_bound_def)
  next
    case nz: False
    then have "current_chunk_size s + utf8_bytes t \<le> MAX_JSON_CHUNK_SIZE_BYTES"
      using False by simp
    then show ?thesis using False assms
      by (auto simp add: append_text_def bounded_def size_bound_def counted_def)
  qed
qed

lemma append_text_numbered:
  assumes "numbered b s"
  shows "numbered b (append_text b t s)"
  using assms by (simp add: append_text_def numbered_def)

lemma append_text_encoded:
  assumes "encoded s" and "encodable t"
  shows "encoded (append_text b t s)"
  using assms by (simp add: append_text_def encoded_def)

lemma append_text_concat:
  "concat (chunks_of (append_text b t s)) @ output_data_list (append_text b t s)
     = concat (chunks_of s) @ output_data_list s @ [t]"
  by (simp add: append_text_def chunks_of_def)

lemma loop_body_inv:
  assumes "run_inv b s" and "loop_body U p b n l s = Inr s'"
  shows "run_inv b s'"
  using assms(2)
proof (cases rule: loop_body_cases)
  case 1
  then show ?thesis
    using assms(1) by (simp add: run_inv_def counted_def bounded_def numbered_def encoded_def)
next
  case (2 r t)
  from 2(2) have "t \<noteq> []" by (rule narrative_nonempty)
  then show ?thesis
    using assms(1) 2(3,4)
    by (simp add: run_inv_def append_text_counted append_text_bounded append_text_numbered
          append_text_encoded)
qed

lemma for_lines_inv:
  "run_inv b s \<Longrightarrow> run_inv b (final_state (for_lines U p b n ls s))"
proof (induction ls arbitrary: s n)
  case Nil
  then show ?case by (simp add: final_state_def)
next
  case (Cons l ls)
  show ?case
  proof (cases l)
    case (Unreadable e)
    then show ?thesis using Cons.prems by (simp add: final_state_def)
  next
    case (Line loads)
    show ?thesis
    proof (cases "loop_body U p b n loads s")
      case (Inl e)
      then show ?thesis using Cons.prems Line by (simp add: final_state_def)
    next
      case (Inr s')
      then have "run_inv b s'" using Cons.prems loop_body_inv by blast
      then show ?thesis using Inr Line Cons.IH by simp
    qed
  qed
qed

lemma start_inv: "run_inv b (start p)"
  by (simp add: run_inv_def counted_def bounded_def numbered_def encoded_def start_def
        size_bound_def)

lemma finish_chunks:
  "chunks_of (finish b s) = chunks_of s @ (if output_data_list s \<noteq> [] then [output_data_list s] else [])"
  by (simp add: finish_def chunks_of_def Let_def)

lemma finish_write_calls:
  "write_calls (finish b s) =
     write_calls s @ (if output_data_list s \<noteq> []
                      then [(b, chunk_file_index s, output_data_list s)] else [])"
  by (simp add: finish_def Let_def)

lemma finish_output_data_list [simp]: "output_data_list (finish b s) = output_data_list s"
  by (simp add: finish_def Let_def)

lemma finish_sealed:
  assumes "run_inv b s"
  shows "list_all (\<lambda>c. size_bound c \<and> c \<noteq> []) (chunks_of (finish b s))"
proof -
  have "list_all (\<lambda>c. size_bound c \<and> c \<noteq> []) (chunks_of s)"
    using assms by (simp add: run_inv_def bounded_def chunks_of_def list_all_iff)
  moreover have "size_bound (output_data_list s)"
    using assms by (simp add: run_inv_def bounded_def)
  ultimately show ?thesis by (simp add: finish_chunks)
qed

lemma finish_numbered:
  assumes "numbered b s"
  shows "map (\<lambda>c. (fst c, fst (snd c))) (write_calls (finish b s))
           = map (\<lambda>i. (b, i)) [0..<length (write_calls (finish b s))]"
proof -
  have len: "length (write_calls s) = chunk_file_index s"
    using arg_cong [where f = length, OF assms [unfolded numbered_def]] by simp
  show ?thesis
    using assms len by (simp add: finish_write_calls numbered_def)
qed

text \<open>The state a run ends in, whether it returned or raised: the chunks written and
  the buffer keep the size bound.\<close>

lemma run_final_state:
  "\<exists>s. run_inv (py_replace (ascii ''.jsonl'') [] (os_path_basename p)) s
       \<and> (split_and_process_jsonl U p ls = Inr (finish (py_replace (ascii ''.jsonl'') [] (os_path_basename p)) s)
            \<and> for_lines U p (py_replace (ascii ''.jsonl'') [] (os_path_basename p)) 0 ls (start p) = Inr s
          \<or> (\<exists>e. split_and_process_jsonl U p ls = Inl (e, s)
                 \<and> for_lines U p (py_replace (ascii ''.jsonl'') [] (os_path_basename p)) 0 ls (start p)
                      = Inl (e, s)))"
proof -
  define b where "b = py_replace (ascii ''.jsonl'') [] (os_path_basename p)"
  have inv: "run_inv b (final_state (for_lines U p b 0 ls (start p)))"
    using start_inv for_lines_inv by blast
  show ?thesis
  proof (cases "for_lines U p b 0 ls (start p)")
    case (Inl es)
    obtain e s where es: "es = (e, s)" by (cases es)
    have "run_inv b s" using inv Inl es by (simp add: final_state_def)
    moreover have "split_and_process_jsonl U p ls = Inl (e, s)"
      using Inl es by (simp add: split_and_process_jsonl_unfold b_def [symmetric])
    ultimately show ?thesis unfolding b_def [symmetric] using Inl es by blast
  next
    case (Inr s)
    have "run_inv b s" using inv Inr by (simp add: final_state_def)
    moreover have "split_and_process_jsonl U p ls = Inr (finish b s)"
      using Inr by (simp add: split_and_process_jsonl_unfold b_def [symmetric])
    ultimately show ?thesis unfolding b_def [symmetric] using Inr by blast
  qed
qed

lemma run_chunks_bounded:
  "list_all (\<lambda>c. size_bound c \<and> c \<noteq> []) (emitted_chunks (split_and_process_jsonl U p ls))"
proof -
  define b where "b = py_replace (ascii ''.jsonl'') [] (os_path_basename p)"
  obtain s where inv: "run_inv b s"
    and run: "split_and_process_jsonl U p ls = Inr (finish b s)
              \<or> (\<exists>e. split_and_process_jsonl U p ls = Inl (e, s))"
    using run_final_state [of p U ls] unfolding b_def [symmetric] by blast
  from run show ?thesis
  proof
    assume r: "split_and_process_jsonl U p ls = Inr (finish b s)"
    have "list_all (\<lambda>c. size_bound c \<and> c \<noteq> []) (chunks_of (finish b s))"
      using inv by (rule finish_sealed)
    then show ?thesis
      by (simp add: r emitted_chunks_def final_state_def chunks_of_def)
  next
    assume "\<exists>e. split_and_process_jsonl U p ls = Inl (e, s)"
    then obtain e where r: "split_and_process_jsonl U p ls = Inl (e, s)" ..
    have "list_all (\<lambda>c. size_bound c \<and> c \<noteq> []) (chunks_of s)"
      using inv by (simp add: run_inv_def bounded_def chunks_of_def list_all_iff)
    then show ?thesis
      by (simp add: r emitted_chunks_def final_state_def chunks_of_def)
  qed
qed

lemma run_buffer_bounded:
  "size_bound (output_data_list (final_state (split_and_process_jsonl U p ls)))"
proof -
  define b where "b = py_replace (ascii ''.jsonl'') [] (os_path_basename p)"
  obtain s where inv: "run_inv b s"
    and run: "split_and_process_jsonl U p ls = Inr (finish b s)
              \<or> (\<exists>e. split_and_process_jsonl U p ls = Inl (e, s))"
    using run_final_state [of p U ls] unfolding b_def [symmetric] by blast
  have "size_bound (output_data_list s)"
    using inv by (simp add: run_inv_def bounded_def)
  then show ?thesis using run by (auto simp: final_state_def)
qed

lemma run_chunks_encodable:
  "list_all (list_all encodable) (emitted_chunks (split_and_process_jsonl U p ls))"
proof -
  define b where "b = py_replace (ascii ''.jsonl'') [] (os_path_basename p)"
  obtain s where inv: "run_inv b s"
    and run: "split_and_process_jsonl U p ls = Inr (finish b s)
              \<or> (\<exists>e. split_and_process_jsonl U p ls = Inl (e, s))"
    using run_final_state [of p U ls] unfolding b_def [symmetric] by blast
  have written: "list_all (list_all encodable) (chunks_of s)"
    and buffer: "list_all encodable (output_data_list s)"
    using inv by (simp_all add: run_inv_def encoded_def chunks_of_def list_all_iff)
  from run show ?thesis
  proof
    assume r: "split_and_process_jsonl U p ls = Inr (finish b s)"
    have "list_all (list_all encodable) (chunks_of (finish b s))"
      using written buffer by (simp add: finish_chunks)
    then show ?thesis
      by (simp add: r emitted_chunks_def final_state_def chunks_of_def)
  next
    assume "\<exists>e. split_and_process_jsonl U p ls = Inl (e, s)"
    then obtain e where r: "split_and_process_jsonl U p ls = Inl (e, s)" ..
    show ?thesis
      using written by (simp add: r emitted_chunks_def final_state_def chunks_of_def)
  qed
qed

section \<open>Conservation\<close>

lemma narratives_of_Nil [simp]: "narratives_of U p [] = []"
  by (simp add: narratives_of_def)

lemma narratives_of_Cons:
  "narratives_of U p (l # ls) = narratives_of U p [l] @ narratives_of U p ls"
  by (simp add: narratives_of_def)

lemma narratives_of_append:
  "narratives_of U p (ks @ ls) = narratives_of U p ks @ narratives_of U p ls"
  by (simp add: narratives_of_def)

lemma narratives_of_skipped [simp]:
  "narratives_of U p (Line JSONDecodeError # ls) = narratives_of U p ls"
  by (simp add: narratives_of_def)

lemma narratives_of_Value:
  "process_json_record U r (os_path_basename p) = Inr t \<Longrightarrow>
     narratives_of U p (Line (Value r) # ls) = t # narratives_of U p ls"
  by (simp add: narratives_of_def)

lemma loop_body_concat:
  assumes "loop_body U p b n l s = Inr s'"
  shows "concat (chunks_of s') @ output_data_list s'
           = concat (chunks_of s) @ output_data_list s @ narratives_of U p [Line l]"
  using assms
proof (cases rule: loop_body_cases)
  case 1
  then show ?thesis by (simp add: chunks_of_def)
next
  case (2 r t)
  then show ?thesis
    using append_text_concat [of b t s] by (simp add: narratives_of_Value)
qed

text \<open>Whatever the outcome, the chunks written and the buffer hold the narratives
  of a prefix of the lines, in order; the whole input when the loop returned.\<close>

lemma for_lines_concat_prefix:
  "\<exists>k \<le> length ls.
     concat (chunks_of (final_state (for_lines U p b n ls s)))
         @ output_data_list (final_state (for_lines U p b n ls s))
       = concat (chunks_of s) @ output_data_list s @ narratives_of U p (take k ls)
     \<and> ((\<exists>s'. for_lines U p b n ls s = Inr s') \<longrightarrow> k = length ls)"
proof (induction ls arbitrary: s n)
  case Nil
  then show ?case by (simp add: final_state_def)
next
  case (Cons l ls)
  have stop: ?case if "\<exists>e. for_lines U p b n (l # ls) s = Inl (e, s)"
  proof -
    from that obtain e where e: "for_lines U p b n (l # ls) s = Inl (e, s)" ..
    have "concat (chunks_of (final_state (for_lines U p b n (l # ls) s)))
         @ output_data_list (final_state (for_lines U p b n (l # ls) s))
       = concat (chunks_of s) @ output_data_list s @ narratives_of U p (take 0 (l # ls))
     \<and> ((\<exists>s'. for_lines U p b n (l # ls) s = Inr s') \<longrightarrow> 0 = length (l # ls))"
      by (simp add: e final_state_def)
    then show ?thesis by blast
  qed
  show ?case
  proof (cases l)
    case (Unreadable e)
    then show ?thesis using stop by simp
  next
    case (Line loads)
    show ?thesis
    proof (cases "loop_body U p b n loads s")
      case (Inl e)
      then show ?thesis using stop Line by simp
    next
      case (Inr s1)
      from Cons.IH [of "n + 1" s1] obtain k where k: "k \<le> length ls"
        and eq: "concat (chunks_of (final_state (for_lines U p b (n + 1) ls s1)))
           @ output_data_list (final_state (for_lines U p b (n + 1) ls s1))
         = concat (chunks_of s1) @ output_data_list s1 @ narratives_of U p (take k ls)"
        and full: "(\<exists>s'. for_lines U p b (n + 1) ls s1 = Inr s') \<longrightarrow> k = length ls"
        by blast
      have step: "concat (chunks_of s1) @ output_data_list s1
             = concat (chunks_of s) @ output_data_list s @ narratives_of U p [l]"
        using loop_body_concat [OF Inr] Line by simp
      have "concat (chunks_of (final_state (for_lines U p b n (l # ls) s)))
           @ output_data_list (final_state (for_lines U p b n (l # ls) s))
         = (concat (chunks_of s1) @ output_data_list s1) @ narratives_of U p (take k ls)"
        using Inr Line eq by simp
      also have "\<dots> = concat (chunks_of s) @ output_data_list s
                         @ narratives_of U p (take (Suc k) (l # ls))"
        by (simp only: step) (simp add: narratives_of_Cons [of U p l "take k ls"])
      finally have "concat (chunks_of (final_state (for_lines U p b n (l # ls) s)))
           @ output_data_list (final_state (for_lines U p b n (l # ls) s))
         = concat (chunks_of s) @ output_data_list s @ narratives_of U p (take (Suc k) (l # ls))" .
      moreover have "Suc k \<le> length (l # ls)" using k by simp
      moreover have "(\<exists>s'. for_lines U p b n (l # ls) s = Inr s') \<longrightarrow> Suc k = length (l # ls)"
        using Inr Line full by simp
      ultimately show ?thesis by blast
    qed
  qed
qed

lemma for_lines_concat:
  assumes "for_lines U p b n ls s = Inr s'"
  shows "concat (chunks_of s') @ output_data_list s'
           = concat (chunks_of s) @ output_data_list s @ narratives_of U p ls"
  using for_lines_concat_prefix [of ls U p b n s] assms
  by (auto simp: final_state_def)

text \<open>The loop returns exactly when every step of the input passes.\<close>

lemma loop_body_returns:
  "(\<exists>s'. loop_body U p b n l s = Inr s') = line_passes U p (Line l)"
proof (cases l)
  case JSONDecodeError
  then show ?thesis by (simp add: loop_body_JSONDecodeError line_passes_def)
next
  case (Raised e)
  then show ?thesis by (simp add: loop_body_Raised line_passes_def)
next
  case (Value r)
  then show ?thesis
    by (simp add: loop_body_Value line_passes_def split: sum.split)
qed

lemma for_lines_returns:
  "(\<exists>s'. for_lines U p b n ls s = Inr s') = list_all (line_passes U p) ls"
proof (induction ls arbitrary: s n)
  case Nil
  then show ?case by simp
next
  case (Cons l ls)
  show ?case
  proof (cases l)
    case (Unreadable e)
    then show ?thesis by (simp add: line_passes_def)
  next
    case (Line loads)
    show ?thesis
    proof (cases "loop_body U p b n loads s")
      case (Inl e)
      then have "\<not> line_passes U p (Line loads)"
        using loop_body_returns [of U p b n loads s] by simp
      then show ?thesis using Inl Line by simp
    next
      case (Inr s1)
      then have "line_passes U p (Line loads)"
        using loop_body_returns [of U p b n loads s] by simp
      then show ?thesis using Inr Line Cons.IH [of "n + 1" s1] by simp
    qed
  qed
qed

lemma run_returns:
  "(\<exists>s. split_and_process_jsonl U p ls = Inr s) = list_all (line_passes U p) ls"
proof -
  define b where "b = py_replace (ascii ''.jsonl'') [] (os_path_basename p)"
  have "(\<exists>s. split_and_process_jsonl U p ls = Inr s)
          = (\<exists>s'. for_lines U p b 0 ls (start p) = Inr s')"
    by (cases "for_lines U p b 0 ls (start p)")
       (auto simp: split_and_process_jsonl_unfold b_def [symmetric])
  then show ?thesis by (simp add: for_lines_returns)
qed

lemma run_conservation:
  assumes "split_and_process_jsonl U p ls = Inr s"
  shows "concat (emitted_chunks (Inr s)) = narratives_of U p ls"
proof -
  define b where "b = py_replace (ascii ''.jsonl'') [] (os_path_basename p)"
  from assms obtain s1 where loop: "for_lines U p b 0 ls (start p) = Inr s1"
    and s: "s = finish b s1"
    by (auto simp: split_and_process_jsonl_unfold b_def split: sum.splits prod.splits)
  have "concat (chunks_of s1) @ output_data_list s1 = narratives_of U p ls"
    using for_lines_concat [OF loop] by (simp add: start_def chunks_of_def)
  moreover have "concat (chunks_of (finish b s1)) = concat (chunks_of s1) @ output_data_list s1"
    by (simp add: finish_chunks)
  ultimately show ?thesis
    using s by (simp add: emitted_chunks_def final_state_def chunks_of_def)
qed

text \<open>Whatever the outcome, the narratives of the chunks written, followed by those
  dropped when the run raised, are the narratives of a prefix of the input: of the whole
  input when the run returned.\<close>

lemma run_prefix:
  "\<exists>k \<le> length ls.
     concat (emitted_chunks (split_and_process_jsonl U p ls)) @ dropped (split_and_process_jsonl U p ls)
       = narratives_of U p (take k ls)
     \<and> ((\<exists>s. split_and_process_jsonl U p ls = Inr s) \<longrightarrow> k = length ls)"
proof -
  define b where "b = py_replace (ascii ''.jsonl'') [] (os_path_basename p)"
  obtain k where k: "k \<le> length ls"
    and eq: "concat (chunks_of (final_state (for_lines U p b 0 ls (start p))))
         @ output_data_list (final_state (for_lines U p b 0 ls (start p)))
       = concat (chunks_of (start p)) @ output_data_list (start p) @ narratives_of U p (take k ls)"
    and full: "(\<exists>s'. for_lines U p b 0 ls (start p) = Inr s') \<longrightarrow> k = length ls"
    using for_lines_concat_prefix [of ls U p b 0 "start p"] by blast
  have eq': "concat (chunks_of (final_state (for_lines U p b 0 ls (start p))))
         @ output_data_list (final_state (for_lines U p b 0 ls (start p)))
       = narratives_of U p (take k ls)"
    using eq by (simp add: start_def chunks_of_def)
  have "concat (emitted_chunks (split_and_process_jsonl U p ls)) @ dropped (split_and_process_jsonl U p ls)
       = narratives_of U p (take k ls)
     \<and> ((\<exists>s. split_and_process_jsonl U p ls = Inr s) \<longrightarrow> k = length ls)"
  proof (cases "for_lines U p b 0 ls (start p)")
    case (Inl es)
    obtain e s where es: "es = (e, s)" by (cases es)
    have "concat (chunks_of s) @ output_data_list s = narratives_of U p (take k ls)"
      using eq' Inl es by (simp add: final_state_def)
    then show ?thesis using Inl es
      by (simp add: split_and_process_jsonl_unfold b_def [symmetric] emitted_chunks_def
            final_state_def chunks_of_def dropped_def)
  next
    case (Inr s)
    have "concat (chunks_of (finish b s)) = narratives_of U p (take k ls)"
      using eq' Inr by (auto simp add: final_state_def finish_chunks)
    moreover have "k = length ls" using full Inr by simp
    ultimately show ?thesis using Inr
      by (simp add: split_and_process_jsonl_unfold b_def [symmetric] emitted_chunks_def
            final_state_def chunks_of_def dropped_def)
  qed
  then show ?thesis using k by blast
qed

lemma set_narratives_of_take: "set (narratives_of U p (take k ls)) \<subseteq> set (narratives_of U p ls)"
proof -
  have "narratives_of U p ls = narratives_of U p (take k ls) @ narratives_of U p (drop k ls)"
    using narratives_of_append [of U p "take k ls" "drop k ls"] by simp
  then show ?thesis by auto
qed

lemma narratives_of_passing:
  "list_all (line_passes U p) ls \<Longrightarrow>
     length (narratives_of U p ls) = length (filter (\<lambda>l. l \<noteq> Line JSONDecodeError) ls)"
proof (induction ls)
  case Nil
  then show ?case by simp
next
  case (Cons l ls)
  have rest: "length (narratives_of U p ls) = length (filter (\<lambda>l. l \<noteq> Line JSONDecodeError) ls)"
    using Cons by simp
  have pass: "line_passes U p l" using Cons.prems by simp
  show ?case
  proof (cases l)
    case (Unreadable e)
    then show ?thesis using pass by (simp add: line_passes_def)
  next
    case (Line loads)
    show ?thesis
    proof (cases loads)
      case JSONDecodeError
      then show ?thesis using Line rest by simp
    next
      case (Raised e)
      then show ?thesis using pass Line by (simp add: line_passes_def)
    next
      case (Value r)
      then obtain t where "process_json_record U r (os_path_basename p) = Inr t"
        using pass Line by (auto simp: line_passes_def split: sum.splits)
      then have "narratives_of U p (l # ls) = t # narratives_of U p ls"
        using Line Value by (simp add: narratives_of_Value)
      then show ?thesis using Line Value rest by simp
    qed
  qed
qed

lemma encodable_join:
  assumes "list_all encodable ps" and "encodable sep"
  shows "encodable (join sep ps)"
  using assms by (induction sep ps rule: join.induct) simp_all

section \<open>Evaluation of the examples\<close>

lemma ascii_append: "ascii a @ ascii b = ascii (a @ b)"
  by (simp add: ascii_def)

lemma process_json_record_not_dict:
  "\<not> isinstance_dict r \<Longrightarrow> process_json_record U r fn = Inl AttributeError"
  by (cases r) (simp_all add: process_json_record_def)

lemma narratives_of_not_dict:
  "\<not> isinstance_dict r \<Longrightarrow> narratives_of U p (Line (Value r) # ls) = narratives_of U p ls"
  by (simp add: narratives_of_def process_json_record_not_dict)

lemmas record_eval =
  process_json_record_def record_item_def case_eval py_str_def startswith_def py_replace.simps

lemma jsonl_path_value:
  "jsonl_path = ascii ''remap-my-rag-source-data/raw/json/large_raw_data.jsonl''"
  by (simp add: jsonl_path_def os_path_join_def RAW_ROOT_def startswith_def endswith_def ascii_def)

lemma jsonl_path_basename [simp]: "os_path_basename jsonl_path = ascii ''large_raw_data.jsonl''"
  by (simp add: jsonl_path_value os_path_basename_def ascii_def)

lemma jsonl_path_base [simp]:
  "py_replace (ascii ''.jsonl'') [] (ascii ''large_raw_data.jsonl'') = ascii ''large_raw_data''"
  by (simp add: py_replace.simps startswith_def ascii_def)

lemma narrative_of_record_of_size:
  "process_json_record U (record_of_size c n) (ascii ''large_raw_data.jsonl'')
     = Inr (narrative_of_size c n)"
  by (simp add: record_of_size_def narrative_of_size_def record_eval ascii_def)

lemma utf8_bytes_narrative_of_size:
  "c < 128 \<Longrightarrow> 49 \<le> n \<Longrightarrow> utf8_bytes (narrative_of_size c n) = n"
  by (simp add: narrative_of_size_def utf8_bytes_replicate utf8_size_def ascii_def)

lemma encodable_narrative_of_size: "c < 128 \<Longrightarrow> encodable (narrative_of_size c n)"
  by (simp add: narrative_of_size_def encodable_replicate surrogate_def ascii_def)

lemma len_encode_utf8_narrative_of_size:
  "c < 128 \<Longrightarrow> 49 \<le> n \<Longrightarrow> len_encode_utf8 (narrative_of_size c n) = Inr n"
  by (simp add: len_encode_utf8_encodable encodable_narrative_of_size utf8_bytes_narrative_of_size)

lemma loop_body_record_of_size:
  "c < 128 \<Longrightarrow>
     loop_body U jsonl_path b k (Value (record_of_size c n)) s
       = Inr (append_text b (narrative_of_size c n) s)"
  by (simp add: loop_body_Value narrative_of_record_of_size encodable_narrative_of_size)

lemma narratives_of_record_of_size:
  "narratives_of U jsonl_path (Line (Value (record_of_size c n)) # ls)
     = narrative_of_size c n # narratives_of U jsonl_path ls"
  by (simp add: narratives_of_Value narrative_of_record_of_size)

lemma line_passes_record_of_size:
  "c < 128 \<Longrightarrow> line_passes U jsonl_path (Line (Value (record_of_size c n)))"
  by (simp add: line_passes_def narrative_of_record_of_size encodable_narrative_of_size)

section \<open>The size bound of the chunks\<close>

text \<open>
  C1, as the code has it. Every chunk a run emits, whether the run returns or raises, is
  non-empty, consists of whole narratives of the input, and its byte size (the sum of the
  encoded lengths of its narratives, separators not counted) is at most
  \<open>MAX_JSON_CHUNK_SIZE_BYTES\<close>, unless the chunk is a single narrative that is over the
  ceiling by itself. A narrative over the ceiling is never split and never put together
  with another one: once appended, it is a chunk of its own, or it was alone in the buffer
  when the run raised. The chunks emitted and the narratives dropped are those of the lines
  before the one that raised, in order. In a run that returns nothing is dropped: every
  narrative over the ceiling is emitted as a chunk of its own.
\<close>

theorem chunk_size_bound:
  "(\<forall>c \<in> set (emitted_chunks (split_and_process_jsonl U p infile)).
       c \<noteq> [] \<and> set c \<subseteq> set (narratives_of U p infile)
       \<and> (chunk_bytes c \<le> MAX_JSON_CHUNK_SIZE_BYTES
          \<or> (length c = 1 \<and> chunk_bytes c > MAX_JSON_CHUNK_SIZE_BYTES)))
   \<and> (\<forall>t \<in> set (concat (emitted_chunks (split_and_process_jsonl U p infile))
                  @ dropped (split_and_process_jsonl U p infile)).
         utf8_bytes t > MAX_JSON_CHUNK_SIZE_BYTES \<longrightarrow>
           [t] \<in> set (emitted_chunks (split_and_process_jsonl U p infile))
           \<or> dropped (split_and_process_jsonl U p infile) = [t])
   \<and> (\<exists>k \<le> length infile.
         concat (emitted_chunks (split_and_process_jsonl U p infile))
             @ dropped (split_and_process_jsonl U p infile)
           = narratives_of U p (take k infile)
         \<and> ((\<exists>s. split_and_process_jsonl U p infile = Inr s) \<longrightarrow> k = length infile))
   \<and> (\<forall>s. split_and_process_jsonl U p infile = Inr s \<longrightarrow>
         dropped (split_and_process_jsonl U p infile) = []
         \<and> (\<forall>t \<in> set (narratives_of U p infile).
              utf8_bytes t > MAX_JSON_CHUNK_SIZE_BYTES \<longrightarrow> [t] \<in> set (emitted_chunks (Inr s))))"
proof (intro conjI ballI allI impI)
  let ?r = "split_and_process_jsonl U p infile"
  obtain k where k: "k \<le> length infile"
    and prefix: "concat (emitted_chunks ?r) @ dropped ?r = narratives_of U p (take k infile)"
    and full: "(\<exists>s. ?r = Inr s) \<longrightarrow> k = length infile"
    using run_prefix [of infile U p] by blast
  show "\<exists>k \<le> length infile.
         concat (emitted_chunks ?r) @ dropped ?r = narratives_of U p (take k infile)
         \<and> ((\<exists>s. ?r = Inr s) \<longrightarrow> k = length infile)"
    using k prefix full by blast
  have sub: "set (concat (emitted_chunks ?r) @ dropped ?r) \<subseteq> set (narratives_of U p infile)"
    unfolding prefix by (rule set_narratives_of_take)
  have alone: "c = [t]"
    if "size_bound c" and "t \<in> set c" and "utf8_bytes t > MAX_JSON_CHUNK_SIZE_BYTES" for c t
  proof -
    have "utf8_bytes t \<le> chunk_bytes c" using that(2) by (rule chunk_bytes_member)
    then have "length c = 1" using that(1,3) by (auto simp: size_bound_def)
    then show ?thesis using that(2) by (cases c) auto
  qed
  {
    fix c assume c: "c \<in> set (emitted_chunks ?r)"
    from c run_chunks_bounded [of U p infile] have sb: "size_bound c" and ne: "c \<noteq> []"
      by (auto simp: list_all_iff)
    show "c \<noteq> []" by (rule ne)
    show "chunk_bytes c \<le> MAX_JSON_CHUNK_SIZE_BYTES
            \<or> (length c = 1 \<and> chunk_bytes c > MAX_JSON_CHUNK_SIZE_BYTES)"
      using sb by (simp add: size_bound_def)
    show "set c \<subseteq> set (narratives_of U p infile)"
      using c sub by auto
  }
  {
    fix t assume t: "t \<in> set (concat (emitted_chunks ?r) @ dropped ?r)"
      and big: "utf8_bytes t > MAX_JSON_CHUNK_SIZE_BYTES"
    from t consider c where "c \<in> set (emitted_chunks ?r)" and "t \<in> set c"
      | "t \<in> set (dropped ?r)"
      by auto
    then show "[t] \<in> set (emitted_chunks ?r) \<or> dropped ?r = [t]"
    proof cases
      case (1 c)
      have "size_bound c"
        using 1(1) run_chunks_bounded [of U p infile] by (auto simp: list_all_iff)
      then have "c = [t]" using 1(2) big by (rule alone)
      then show ?thesis using 1(1) by simp
    next
      case 2
      then have "dropped ?r = output_data_list (final_state ?r)"
        by (cases ?r) (auto simp: dropped_def final_state_def)
      then have "size_bound (dropped ?r)"
        using run_buffer_bounded [of U p infile] by simp
      then have "dropped ?r = [t]" using 2 big by (rule alone)
      then show ?thesis by simp
    qed
  }
  {
    fix s assume run: "?r = Inr s"
    show "dropped ?r = []" by (simp add: run dropped_def)
    fix t assume t: "t \<in> set (narratives_of U p infile)"
      and big: "utf8_bytes t > MAX_JSON_CHUNK_SIZE_BYTES"
    have "t \<in> set (concat (emitted_chunks (Inr s)))"
      using run_conservation [OF run] t by simp
    then obtain c where c: "c \<in> set (emitted_chunks (Inr s))" and tc: "t \<in> set c"
      by auto
    have "size_bound c"
      using c run_chunks_bounded [of U p infile] run by (auto simp: list_all_iff)
    then have "c = [t]" using tc big by (rule alone)
    then show "[t] \<in> set (emitted_chunks (Inr s))" using c by simp
  }
qed

text \<open>Scenario B: one record whose narrative has 45 MB is emitted as chunk 0, alone.\<close>

theorem chunk_size_bound_witness:
  "narratives_of example_db jsonl_path [Line (Value (record_of_size 120 (45 * 1024 * 1024)))]
       = [narrative_of_size 120 (45 * 1024 * 1024)]
   \<and> utf8_bytes (narrative_of_size 120 (45 * 1024 * 1024)) = 45 * 1024 * 1024
   \<and> MAX_JSON_CHUNK_SIZE_BYTES < utf8_bytes (narrative_of_size 120 (45 * 1024 * 1024))
   \<and> emitted_chunks (split_and_process_jsonl example_db jsonl_path
         [Line (Value (record_of_size 120 (45 * 1024 * 1024)))])
       = [[narrative_of_size 120 (45 * 1024 * 1024)]]
   \<and> [narrative_of_size 120 (45 * 1024 * 1024)]
       \<in> set (emitted_chunks (split_and_process_jsonl example_db jsonl_path
                [Line (Value (record_of_size 120 (45 * 1024 * 1024)))]))"
proof -
  let ?infile = "[Line (Value (record_of_size 120 (45 * 1024 * 1024)))]"
  let ?t = "narrative_of_size 120 (45 * 1024 * 1024)"
  have nar: "narratives_of example_db jsonl_path ?infile = [?t]"
    by (simp add: narratives_of_record_of_size)
  have len: "utf8_bytes ?t = 45 * 1024 * 1024"
    by (simp add: utf8_bytes_narrative_of_size)
  have big: "MAX_JSON_CHUNK_SIZE_BYTES < utf8_bytes ?t"
    by (simp add: utf8_bytes_narrative_of_size MAX_JSON_CHUNK_SIZE_BYTES_def)
  have chunks: "emitted_chunks (split_and_process_jsonl example_db jsonl_path ?infile) = [[?t]]"
    by (simp add: split_and_process_jsonl_unfold loop_body_record_of_size
          emitted_chunks_def final_state_def finish_write_calls append_text_def start_def)
  have "list_all (line_passes example_db jsonl_path) ?infile"
    by (simp add: line_passes_record_of_size)
  then obtain s where run: "split_and_process_jsonl example_db jsonl_path ?infile = Inr s"
    using run_returns [of example_db jsonl_path ?infile] by blast
  have "?t \<in> set (narratives_of example_db jsonl_path ?infile)"
    by (simp only: nar) simp
  with chunk_size_bound [of example_db jsonl_path ?infile] run big
  have "[?t] \<in> set (emitted_chunks (Inr s))"
    by blast
  then have "[?t] \<in> set (emitted_chunks (split_and_process_jsonl example_db jsonl_path ?infile))"
    by (simp only: run)
  with nar len big chunks show ?thesis by blast
qed

text \<open>A record whose narrative has 45 MB, followed by the line \<open>5\<close>: the narrative is
  derived, it is over the ceiling, and it is in no chunk. \<open>process_json_record\<close> raises
  \<open>AttributeError\<close> on the second line while the narrative is in the buffer, and the run
  ends before the trailing chunk is written.\<close>

lemma run_oversized_then_non_object:
  "split_and_process_jsonl U jsonl_path
      [Line (Value (record_of_size 120 (45 * 1024 * 1024))), Line (Value (JInt 5))]
     = Inl (AttributeError,
            \<lparr>current_chunk_size = 45 * 1024 * 1024, chunk_file_index = 0,
             output_data_list = [narrative_of_size 120 (45 * 1024 * 1024)],
             write_calls = [],
             printed = [ascii ''Starting splitting and cleaning of large_raw_data.jsonl...'']\<rparr>)"
  by (simp add: split_and_process_jsonl_unfold loop_body_Value narrative_of_record_of_size
        encodable_narrative_of_size process_json_record_not_dict append_text_def start_def
        utf8_bytes_narrative_of_size ascii_append)

theorem oversized_narrative_dropped:
  "narratives_of example_db jsonl_path
      [Line (Value (record_of_size 120 (45 * 1024 * 1024))), Line (Value (JInt 5))]
     = [narrative_of_size 120 (45 * 1024 * 1024)]
   \<and> MAX_JSON_CHUNK_SIZE_BYTES < utf8_bytes (narrative_of_size 120 (45 * 1024 * 1024))
   \<and> split_and_process_jsonl example_db jsonl_path
        [Line (Value (record_of_size 120 (45 * 1024 * 1024))), Line (Value (JInt 5))]
       = Inl (AttributeError,
              \<lparr>current_chunk_size = 45 * 1024 * 1024, chunk_file_index = 0,
               output_data_list = [narrative_of_size 120 (45 * 1024 * 1024)],
               write_calls = [],
               printed = [ascii ''Starting splitting and cleaning of large_raw_data.jsonl...'']\<rparr>)
   \<and> emitted_chunks (split_and_process_jsonl example_db jsonl_path
        [Line (Value (record_of_size 120 (45 * 1024 * 1024))), Line (Value (JInt 5))]) = []
   \<and> written_files (split_and_process_jsonl example_db jsonl_path
        [Line (Value (record_of_size 120 (45 * 1024 * 1024))), Line (Value (JInt 5))]) = []
   \<and> dropped (split_and_process_jsonl example_db jsonl_path
        [Line (Value (record_of_size 120 (45 * 1024 * 1024))), Line (Value (JInt 5))])
       = [narrative_of_size 120 (45 * 1024 * 1024)]"
proof -
  let ?infile = "[Line (Value (record_of_size 120 (45 * 1024 * 1024))), Line (Value (JInt 5))]"
  let ?t = "narrative_of_size 120 (45 * 1024 * 1024)"
  have nar: "narratives_of example_db jsonl_path ?infile = [?t]"
    by (simp add: narratives_of_record_of_size narratives_of_not_dict)
  have big: "MAX_JSON_CHUNK_SIZE_BYTES < utf8_bytes ?t"
    by (simp add: utf8_bytes_narrative_of_size MAX_JSON_CHUNK_SIZE_BYTES_def)
  note run = run_oversized_then_non_object [of example_db]
  have chunks: "emitted_chunks (split_and_process_jsonl example_db jsonl_path ?infile) = []"
    by (simp only: run) (simp add: emitted_chunks_def final_state_def)
  have files: "written_files (split_and_process_jsonl example_db jsonl_path ?infile) = []"
    by (simp only: run) (simp add: written_files_def final_state_def)
  have lost: "dropped (split_and_process_jsonl example_db jsonl_path ?infile) = [?t]"
    by (simp only: run) (simp add: dropped_def)
  show ?thesis by (intro conjI nar big run chunks files lost)
qed

section \<open>Conservation of the narratives\<close>

text \<open>
  C2, as the code has it. A run returns exactly when every step of the input passes: the
  iteration over the file raises nothing, \<open>json.loads\<close> raises nothing but
  \<open>JSONDecodeError\<close>, and every value it returns is one for which \<open>process_json_record\<close>
  returns a narrative that UTF-8 can encode (a JSON object whose fields can be printed,
  with no lone surrogate in the narrative). When the run returns, the narratives of the
  emitted chunks, concatenated in emission order (the trailing chunk included), are
  exactly the narratives \<open>process_json_record\<close> derives from the lines that parse, in input
  order: one for each line but those on which \<open>json.loads\<close> raised \<open>JSONDecodeError\<close>,
  none twice, none lost.
\<close>

theorem conservation:
  "((\<exists>s. split_and_process_jsonl U p infile = Inr s) = list_all (line_passes U p) infile)
   \<and> (list_all (line_passes U p) infile \<longrightarrow>
        (\<exists>s. split_and_process_jsonl U p infile = Inr s
           \<and> concat (emitted_chunks (Inr s)) = narratives_of U p infile
           \<and> length (narratives_of U p infile)
               = length (filter (\<lambda>l. l \<noteq> Line JSONDecodeError) infile)))"
proof (intro conjI impI)
  show "(\<exists>s. split_and_process_jsonl U p infile = Inr s) = list_all (line_passes U p) infile"
    by (rule run_returns)
  assume pass: "list_all (line_passes U p) infile"
  then obtain s where run: "split_and_process_jsonl U p infile = Inr s"
    using run_returns [of U p infile] by blast
  have "concat (emitted_chunks (Inr s)) = narratives_of U p infile"
    using run by (rule run_conservation)
  moreover have "length (narratives_of U p infile)
                   = length (filter (\<lambda>l. l \<noteq> Line JSONDecodeError) infile)"
    using pass by (rule narratives_of_passing)
  ultimately show "\<exists>s. split_and_process_jsonl U p infile = Inr s
           \<and> concat (emitted_chunks (Inr s)) = narratives_of U p infile
           \<and> length (narratives_of U p infile)
               = length (filter (\<lambda>l. l \<noteq> Line JSONDecodeError) infile)"
    using run by blast
qed

text \<open>Three lines, the second malformed: two narratives, in the order of the lines.\<close>

lemma narrative_Ann:
  "process_json_record U (JDict [(ascii ''name'', JStr (ascii ''Ann''))]) (ascii ''large_raw_data.jsonl'')
     = Inr (ascii ''SOURCE FILE: large_raw_data.jsonl. The Name is: Ann.'')"
  by (simp add: record_eval ascii_def)

lemma narrative_age:
  "process_json_record U (JDict [(ascii ''age'', JInt 41)]) (ascii ''large_raw_data.jsonl'')
     = Inr (ascii ''SOURCE FILE: large_raw_data.jsonl. The Age is: 41.'')"
  by (simp add: record_eval repr_eval ascii_def)

lemma encodable_ascii: "encodable (ascii s)"
proof -
  have "\<not> surrogate (of_char c)" for c :: char
  proof -
    have "(of_char c :: nat) < 256" by simp
    then show ?thesis unfolding surrogate_def by linarith
  qed
  then show ?thesis by (induction s) (simp_all add: ascii_def)
qed

theorem conservation_witness:
  "list_all (line_passes example_db jsonl_path)
      [Line (Value (JDict [(ascii ''name'', JStr (ascii ''Ann''))])), Line JSONDecodeError,
       Line (Value (JDict [(ascii ''age'', JInt 41)]))]
   \<and> narratives_of example_db jsonl_path
        [Line (Value (JDict [(ascii ''name'', JStr (ascii ''Ann''))])), Line JSONDecodeError,
         Line (Value (JDict [(ascii ''age'', JInt 41)]))]
       = [ascii ''SOURCE FILE: large_raw_data.jsonl. The Name is: Ann.'',
          ascii ''SOURCE FILE: large_raw_data.jsonl. The Age is: 41.'']
   \<and> concat (emitted_chunks (split_and_process_jsonl example_db jsonl_path
        [Line (Value (JDict [(ascii ''name'', JStr (ascii ''Ann''))])), Line JSONDecodeError,
         Line (Value (JDict [(ascii ''age'', JInt 41)]))]))
       = [ascii ''SOURCE FILE: large_raw_data.jsonl. The Name is: Ann.'',
          ascii ''SOURCE FILE: large_raw_data.jsonl. The Age is: 41.'']"
proof -
  let ?infile = "[Line (Value (JDict [(ascii ''name'', JStr (ascii ''Ann''))])), Line JSONDecodeError,
       Line (Value (JDict [(ascii ''age'', JInt 41)]))]"
  have pass: "list_all (line_passes example_db jsonl_path) ?infile"
    by (simp add: line_passes_def narrative_Ann narrative_age encodable_ascii)
  have nar: "narratives_of example_db jsonl_path ?infile
       = [ascii ''SOURCE FILE: large_raw_data.jsonl. The Name is: Ann.'',
          ascii ''SOURCE FILE: large_raw_data.jsonl. The Age is: 41.'']"
    by (simp add: narratives_of_Value narrative_Ann narrative_age)
  from conservation [of example_db jsonl_path ?infile] pass obtain s
    where run: "split_and_process_jsonl example_db jsonl_path ?infile = Inr s"
      and eq: "concat (emitted_chunks (Inr s)) = narratives_of example_db jsonl_path ?infile"
    by blast
  have "concat (emitted_chunks (split_and_process_jsonl example_db jsonl_path ?infile))
          = narratives_of example_db jsonl_path ?infile"
    using eq by (simp only: run)
  with pass nar show ?thesis by (simp only:)
qed

text \<open>A line that parses to a value other than an object makes \<open>process_json_record\<close>
  raise; the error is not caught, the run ends before the trailing chunk is written and
  the narrative of the line before is lost. The same happens on an object whose text
  holds a lone surrogate (the line \<open>{"name": "\ud800"}\<close>), when the narrative is encoded.\<close>

theorem conservation_counterexample:
  "narratives_of example_db jsonl_path
      [Line (Value (JDict [(ascii ''name'', JStr (ascii ''Ann''))])), Line (Value (JInt 5))]
       = [ascii ''SOURCE FILE: large_raw_data.jsonl. The Name is: Ann.'']
   \<and> split_and_process_jsonl example_db jsonl_path
        [Line (Value (JDict [(ascii ''name'', JStr (ascii ''Ann''))])), Line (Value (JInt 5))]
       = Inl (AttributeError,
              \<lparr>current_chunk_size = 52, chunk_file_index = 0,
               output_data_list = [ascii ''SOURCE FILE: large_raw_data.jsonl. The Name is: Ann.''],
               write_calls = [],
               printed = [ascii ''Starting splitting and cleaning of large_raw_data.jsonl...'']\<rparr>)
   \<and> concat (emitted_chunks (split_and_process_jsonl example_db jsonl_path
        [Line (Value (JDict [(ascii ''name'', JStr (ascii ''Ann''))])), Line (Value (JInt 5))])) = []
   \<and> narratives_of example_db jsonl_path
        [Line (Value (JDict [(ascii ''name'', JStr (ascii ''Ann''))])),
         Line (Value (JDict [(ascii ''name'', JStr [55296])]))]
       = [ascii ''SOURCE FILE: large_raw_data.jsonl. The Name is: Ann.'',
          ascii ''SOURCE FILE: large_raw_data.jsonl. The Name is: '' @ [55296] @ ascii ''.'']
   \<and> split_and_process_jsonl example_db jsonl_path
        [Line (Value (JDict [(ascii ''name'', JStr (ascii ''Ann''))])),
         Line (Value (JDict [(ascii ''name'', JStr [55296])]))]
       = Inl (UnicodeEncodeError,
              \<lparr>current_chunk_size = 52, chunk_file_index = 0,
               output_data_list = [ascii ''SOURCE FILE: large_raw_data.jsonl. The Name is: Ann.''],
               write_calls = [],
               printed = [ascii ''Starting splitting and cleaning of large_raw_data.jsonl...'']\<rparr>)
   \<and> concat (emitted_chunks (split_and_process_jsonl example_db jsonl_path
        [Line (Value (JDict [(ascii ''name'', JStr (ascii ''Ann''))])),
         Line (Value (JDict [(ascii ''name'', JStr [55296])]))])) = []"
proof -
  let ?infile = "[Line (Value (JDict [(ascii ''name'', JStr (ascii ''Ann''))])), Line (Value (JInt 5))]"
  let ?infile' = "[Line (Value (JDict [(ascii ''name'', JStr (ascii ''Ann''))])),
         Line (Value (JDict [(ascii ''name'', JStr [55296])]))]"
  let ?s = "\<lparr>current_chunk_size = 52, chunk_file_index = 0,
               output_data_list = [ascii ''SOURCE FILE: large_raw_data.jsonl. The Name is: Ann.''],
               write_calls = [],
               printed = [ascii ''Starting splitting and cleaning of large_raw_data.jsonl...'']\<rparr>"
  have bytes: "utf8_bytes (ascii ''SOURCE FILE: large_raw_data.jsonl. The Name is: Ann.'') = 52"
    by (simp add: utf8_size_def ascii_def)
  have surr: "process_json_record example_db (JDict [(ascii ''name'', JStr [55296])])
                (ascii ''large_raw_data.jsonl'')
      = Inr (ascii ''SOURCE FILE: large_raw_data.jsonl. The Name is: '' @ [55296] @ ascii ''.'')"
    by (simp add: record_eval ascii_def)
  have nar: "narratives_of example_db jsonl_path ?infile
       = [ascii ''SOURCE FILE: large_raw_data.jsonl. The Name is: Ann.'']"
    by (simp add: narratives_of_Value narrative_Ann narratives_of_not_dict)
  have run: "split_and_process_jsonl example_db jsonl_path ?infile = Inl (AttributeError, ?s)"
    by (simp add: split_and_process_jsonl_unfold loop_body_Value narrative_Ann encodable_ascii
          append_text_def start_def bytes process_json_record_not_dict ascii_append)
  have none: "concat (emitted_chunks (split_and_process_jsonl example_db jsonl_path ?infile)) = []"
    by (simp only: run) (simp add: emitted_chunks_def final_state_def)
  have nar': "narratives_of example_db jsonl_path ?infile'
       = [ascii ''SOURCE FILE: large_raw_data.jsonl. The Name is: Ann.'',
          ascii ''SOURCE FILE: large_raw_data.jsonl. The Name is: '' @ [55296] @ ascii ''.'']"
    by (simp add: narratives_of_Value narrative_Ann surr)
  have run': "split_and_process_jsonl example_db jsonl_path ?infile' = Inl (UnicodeEncodeError, ?s)"
    by (simp add: split_and_process_jsonl_unfold loop_body_Value narrative_Ann encodable_ascii
          append_text_def start_def bytes surr surrogate_def ascii_append)
  have none': "concat (emitted_chunks (split_and_process_jsonl example_db jsonl_path ?infile')) = []"
    by (simp only: run') (simp add: emitted_chunks_def final_state_def)
  show ?thesis by (intro conjI nar run none nar' run' none')
qed

section \<open>Scenario A: the roll-over is strict\<close>

text \<open>
  C5. Three records whose narratives encode to 20 MB, 20 MB and 5 MB. After the first two
  lines the counter is exactly 40 MB, the ceiling, and nothing has been written: the test is
  the strict \<open>>\<close>. The run returns and has written exactly two chunks: chunk 0 holds the first
  two narratives (40 MB), chunk 1 holds the third alone (5 MB).
\<close>

theorem scenario_A:
  assumes "process_json_record U r1 (os_path_basename p) = Inr t1"
    and "process_json_record U r2 (os_path_basename p) = Inr t2"
    and "process_json_record U r3 (os_path_basename p) = Inr t3"
    and "len_encode_utf8 t1 = Inr (20 * 1024 * 1024)"
    and "len_encode_utf8 t2 = Inr (20 * 1024 * 1024)"
    and "len_encode_utf8 t3 = Inr (5 * 1024 * 1024)"
  shows "(\<exists>s2. for_lines U p (py_replace (ascii ''.jsonl'') [] (os_path_basename p)) 0
                  [Line (Value r1), Line (Value r2)] (start p) = Inr s2
               \<and> current_chunk_size s2 = MAX_JSON_CHUNK_SIZE_BYTES
               \<and> output_data_list s2 = [t1, t2] \<and> write_calls s2 = [])
       \<and> (\<exists>s. split_and_process_jsonl U p [Line (Value r1), Line (Value r2), Line (Value r3)] = Inr s
               \<and> write_calls s =
                   [(py_replace (ascii ''.jsonl'') [] (os_path_basename p), 0, [t1, t2]),
                    (py_replace (ascii ''.jsonl'') [] (os_path_basename p), 1, [t3])])
       \<and> chunk_bytes [t1, t2] = 40 * 1024 * 1024
       \<and> chunk_bytes [t3] = 5 * 1024 * 1024"
proof -
  define b where "b = py_replace (ascii ''.jsonl'') [] (os_path_basename p)"
  define s2 where "s2 = append_text b t2 (append_text b t1 (start p))"
  have enc: "encodable t1" "encodable t2" "encodable t3"
    and len: "utf8_bytes t1 = 20 * 1024 * 1024" "utf8_bytes t2 = 20 * 1024 * 1024"
      "utf8_bytes t3 = 5 * 1024 * 1024"
    using assms(4,5,6) by (simp_all add: len_encode_utf8_encodable split: if_splits)
  have two: "for_lines U p b 0 [Line (Value r1), Line (Value r2)] (start p) = Inr s2"
    by (simp add: loop_body_Value assms(1,2,3) enc s2_def)
  have s2: "current_chunk_size s2 = MAX_JSON_CHUNK_SIZE_BYTES"
      "output_data_list s2 = [t1, t2]" "write_calls s2 = []" "chunk_file_index s2 = 0"
    by (simp_all add: s2_def append_text_def start_def len MAX_JSON_CHUNK_SIZE_BYTES_def)
  have three: "for_lines U p b 0 [Line (Value r1), Line (Value r2), Line (Value r3)] (start p)
                 = Inr (append_text b t3 s2)"
    by (simp add: loop_body_Value assms(1,2,3) enc s2_def)
  have s3: "write_calls (append_text b t3 s2) = [(b, 0, [t1, t2])]"
      "output_data_list (append_text b t3 s2) = [t3]"
      "chunk_file_index (append_text b t3 s2) = 1"
    by (simp_all add: append_text_def s2 len MAX_JSON_CHUNK_SIZE_BYTES_def)
  have run: "split_and_process_jsonl U p [Line (Value r1), Line (Value r2), Line (Value r3)]
               = Inr (finish b (append_text b t3 s2))"
    by (simp only: split_and_process_jsonl_unfold b_def [symmetric] three) simp
  have calls: "write_calls (finish b (append_text b t3 s2)) = [(b, 0, [t1, t2]), (b, 1, [t3])]"
    by (simp add: finish_write_calls s3)
  have bytes: "chunk_bytes [t1, t2] = 40 * 1024 * 1024" "chunk_bytes [t3] = 5 * 1024 * 1024"
    by (simp_all add: len)
  show ?thesis
    unfolding b_def [symmetric] using two s2 run calls bytes by blast
qed

text \<open>The three records of the example have narratives of 20 MB, 20 MB and 5 MB.\<close>

theorem scenario_A_witness:
  "process_json_record example_db (record_of_size 97 (20 * 1024 * 1024)) (os_path_basename jsonl_path)
       = Inr (narrative_of_size 97 (20 * 1024 * 1024))
   \<and> process_json_record example_db (record_of_size 98 (20 * 1024 * 1024)) (os_path_basename jsonl_path)
       = Inr (narrative_of_size 98 (20 * 1024 * 1024))
   \<and> process_json_record example_db (record_of_size 99 (5 * 1024 * 1024)) (os_path_basename jsonl_path)
       = Inr (narrative_of_size 99 (5 * 1024 * 1024))
   \<and> len_encode_utf8 (narrative_of_size 97 (20 * 1024 * 1024)) = Inr (20 * 1024 * 1024)
   \<and> len_encode_utf8 (narrative_of_size 98 (20 * 1024 * 1024)) = Inr (20 * 1024 * 1024)
   \<and> len_encode_utf8 (narrative_of_size 99 (5 * 1024 * 1024)) = Inr (5 * 1024 * 1024)
   \<and> emitted_chunks (split_and_process_jsonl example_db jsonl_path
        [Line (Value (record_of_size 97 (20 * 1024 * 1024))),
         Line (Value (record_of_size 98 (20 * 1024 * 1024))),
         Line (Value (record_of_size 99 (5 * 1024 * 1024)))])
       = [[narrative_of_size 97 (20 * 1024 * 1024),
           narrative_of_size 98 (20 * 1024 * 1024)],
          [narrative_of_size 99 (5 * 1024 * 1024)]]
   \<and> written_names (split_and_process_jsonl example_db jsonl_path
        [Line (Value (record_of_size 97 (20 * 1024 * 1024))),
         Line (Value (record_of_size 98 (20 * 1024 * 1024))),
         Line (Value (record_of_size 99 (5 * 1024 * 1024)))])
       = [ascii ''large_raw_data_part_000.txt'', ascii ''large_raw_data_part_001.txt'']"
proof -
  let ?r1 = "record_of_size 97 (20 * 1024 * 1024)"
  let ?r2 = "record_of_size 98 (20 * 1024 * 1024)"
  let ?r3 = "record_of_size 99 (5 * 1024 * 1024)"
  let ?t1 = "narrative_of_size 97 (20 * 1024 * 1024)"
  let ?t2 = "narrative_of_size 98 (20 * 1024 * 1024)"
  let ?t3 = "narrative_of_size 99 (5 * 1024 * 1024)"
  have n1: "process_json_record example_db ?r1 (os_path_basename jsonl_path) = Inr ?t1"
    and n2: "process_json_record example_db ?r2 (os_path_basename jsonl_path) = Inr ?t2"
    and n3: "process_json_record example_db ?r3 (os_path_basename jsonl_path) = Inr ?t3"
    by (simp_all add: narrative_of_record_of_size)
  have l1: "len_encode_utf8 ?t1 = Inr (20 * 1024 * 1024)"
    and l2: "len_encode_utf8 ?t2 = Inr (20 * 1024 * 1024)"
    and l3: "len_encode_utf8 ?t3 = Inr (5 * 1024 * 1024)"
    by (simp_all add: len_encode_utf8_narrative_of_size)
  from scenario_A [OF n1 n2 n3 l1 l2 l3] obtain s
    where run: "split_and_process_jsonl example_db jsonl_path
                  [Line (Value ?r1), Line (Value ?r2), Line (Value ?r3)] = Inr s"
      and calls: "write_calls s =
        [(py_replace (ascii ''.jsonl'') [] (os_path_basename jsonl_path), 0, [?t1, ?t2]),
         (py_replace (ascii ''.jsonl'') [] (os_path_basename jsonl_path), 1, [?t3])]"
    by blast
  have chunks: "emitted_chunks (split_and_process_jsonl example_db jsonl_path
                  [Line (Value ?r1), Line (Value ?r2), Line (Value ?r3)])
       = [[?t1, ?t2], [?t3]]"
    by (simp only: run) (simp add: emitted_chunks_def final_state_def calls)
  have names: "written_names (split_and_process_jsonl example_db jsonl_path
                  [Line (Value ?r1), Line (Value ?r2), Line (Value ?r3)])
       = [ascii ''large_raw_data_part_000.txt'', ascii ''large_raw_data_part_001.txt'']"
    by (simp only: run)
       (simp add: written_names_def final_state_def calls output_filename_def ascii_append)
  show ?thesis by (intro conjI n1 n2 n3 l1 l2 l3 chunks names)
qed

section \<open>Malformed lines\<close>

lemma same_data_refl [simp]: "same_data s s"
  by (simp add: same_data_def)

lemma same_data_printed [simp]: "same_data (s\<lparr>printed := ps\<rparr>) s' = same_data s s'"
  by (simp add: same_data_def)
















section \<open>The bytes of a chunk file\<close>

lemma utf8_bytes_join:
  "utf8_bytes (join sep ps) = sum_list (map utf8_bytes ps) + utf8_bytes sep * (length ps - 1)"
  by (induction sep ps rule: join.induct) simp_all

lemma utf8_bytes_paragraph_break [simp]: "utf8_bytes paragraph_break = 7"
  by (simp add: paragraph_break_def utf8_size_def)

lemma written_files_nth:
  assumes "k < length (write_calls (final_state r))"
  shows "snd (written_files r ! k) = join paragraph_break (emitted_chunks r ! k)"
  using assms by (simp add: written_files_def emitted_chunks_def write_json_chunk_def)

text \<open>
  C4, as the code has it. A run writes one file for each chunk it emits. The text written
  is the narratives of the chunk joined by the separator of 7 bytes, so a file of \<open>n\<close>
  narratives has the bytes of its narratives and \<open>7 * (n - 1)\<close> bytes of separators. The
  ceiling bounds the bytes of the narratives only, and not those of a chunk that is a
  single narrative over the ceiling: a file has at most
  \<open>MAX_JSON_CHUNK_SIZE_BYTES + 7 * (n - 1)\<close> bytes, or holds one such narrative alone.
\<close>

theorem chunk_file_bytes:
  "length (written_files (split_and_process_jsonl U p infile))
     = length (emitted_chunks (split_and_process_jsonl U p infile))
   \<and> (\<forall>k < length (emitted_chunks (split_and_process_jsonl U p infile)).
        snd (written_files (split_and_process_jsonl U p infile) ! k)
          = join paragraph_break (emitted_chunks (split_and_process_jsonl U p infile) ! k)
        \<and> utf8_bytes (snd (written_files (split_and_process_jsonl U p infile) ! k))
          = chunk_bytes (emitted_chunks (split_and_process_jsonl U p infile) ! k)
            + 7 * (length (emitted_chunks (split_and_process_jsonl U p infile) ! k) - 1)
        \<and> encodable (snd (written_files (split_and_process_jsonl U p infile) ! k))
        \<and> (utf8_bytes (snd (written_files (split_and_process_jsonl U p infile) ! k))
              \<le> MAX_JSON_CHUNK_SIZE_BYTES
                  + 7 * (length (emitted_chunks (split_and_process_jsonl U p infile) ! k) - 1)
            \<or> (length (emitted_chunks (split_and_process_jsonl U p infile) ! k) = 1
                \<and> MAX_JSON_CHUNK_SIZE_BYTES
                    < utf8_bytes (snd (written_files (split_and_process_jsonl U p infile) ! k)))))"
proof (intro conjI allI impI)
  let ?r = "split_and_process_jsonl U p infile"
  show "length (written_files ?r) = length (emitted_chunks ?r)"
    by (simp add: written_files_def emitted_chunks_def)
  fix k assume k: "k < length (emitted_chunks ?r)"
  let ?c = "emitted_chunks ?r ! k"
  let ?f = "snd (written_files ?r ! k)"
  have "k < length (write_calls (final_state ?r))"
    using k by (simp add: emitted_chunks_def)
  then show joined: "?f = join paragraph_break ?c"
    by (rule written_files_nth)
  then show len: "utf8_bytes ?f = chunk_bytes ?c + 7 * (length ?c - 1)"
    by (simp add: utf8_bytes_join chunk_bytes_def)
  have mem: "?c \<in> set (emitted_chunks ?r)" using k by simp
  then have "list_all encodable ?c"
    using run_chunks_encodable [of U p infile] by (auto simp: list_all_iff)
  then show "encodable ?f"
    unfolding joined by (rule encodable_join) (simp add: paragraph_break_def surrogate_def)
  have "size_bound ?c"
    using mem run_chunks_bounded [of U p infile] by (auto simp: list_all_iff)
  then show "utf8_bytes ?f \<le> MAX_JSON_CHUNK_SIZE_BYTES + 7 * (length ?c - 1)
               \<or> (length ?c = 1 \<and> MAX_JSON_CHUNK_SIZE_BYTES < utf8_bytes ?f)"
    unfolding len by (auto simp: size_bound_def)
qed

text \<open>Two narratives of 20 MB and one of 45 MB: the first file has 40 MB and 7 bytes,
  the second 45 MB.\<close>

lemma run_20_20_45:
  "write_calls (final_state (split_and_process_jsonl U jsonl_path
      [Line (Value (record_of_size 97 (20 * 1024 * 1024))),
       Line (Value (record_of_size 98 (20 * 1024 * 1024))),
       Line (Value (record_of_size 99 (45 * 1024 * 1024)))]))
   = [(ascii ''large_raw_data'', 0, [narrative_of_size 97 (20 * 1024 * 1024),
                                     narrative_of_size 98 (20 * 1024 * 1024)]),
      (ascii ''large_raw_data'', 1, [narrative_of_size 99 (45 * 1024 * 1024)])]"
  by (simp add: split_and_process_jsonl_unfold loop_body_record_of_size final_state_def
        finish_write_calls append_text_def start_def utf8_bytes_narrative_of_size
        MAX_JSON_CHUNK_SIZE_BYTES_def)

lemma chunk_file_path:
  "fst (write_json_chunk (ascii ''large_raw_data'') k d)
     = ascii ''remap-my-rag-source-data/processed/json_chunks/large_raw_data_part_''
         @ format_03d k @ ascii ''.txt''"
  by (simp add: write_json_chunk_def output_filename_def os_path_join_def PROCESSED_ROOT_def
        startswith_def endswith_def ascii_def)

theorem chunk_file_bytes_witness:
  "length (emitted_chunks (split_and_process_jsonl example_db jsonl_path
      [Line (Value (record_of_size 97 (20 * 1024 * 1024))),
       Line (Value (record_of_size 98 (20 * 1024 * 1024))),
       Line (Value (record_of_size 99 (45 * 1024 * 1024)))])) = 2
   \<and> utf8_bytes (snd (written_files (split_and_process_jsonl example_db jsonl_path
      [Line (Value (record_of_size 97 (20 * 1024 * 1024))),
       Line (Value (record_of_size 98 (20 * 1024 * 1024))),
       Line (Value (record_of_size 99 (45 * 1024 * 1024)))]) ! 0))
      = chunk_bytes (emitted_chunks (split_and_process_jsonl example_db jsonl_path
      [Line (Value (record_of_size 97 (20 * 1024 * 1024))),
       Line (Value (record_of_size 98 (20 * 1024 * 1024))),
       Line (Value (record_of_size 99 (45 * 1024 * 1024)))]) ! 0)
        + 7 * (length (emitted_chunks (split_and_process_jsonl example_db jsonl_path
      [Line (Value (record_of_size 97 (20 * 1024 * 1024))),
       Line (Value (record_of_size 98 (20 * 1024 * 1024))),
       Line (Value (record_of_size 99 (45 * 1024 * 1024)))]) ! 0) - 1)
   \<and> chunk_bytes (emitted_chunks (split_and_process_jsonl example_db jsonl_path
      [Line (Value (record_of_size 97 (20 * 1024 * 1024))),
       Line (Value (record_of_size 98 (20 * 1024 * 1024))),
       Line (Value (record_of_size 99 (45 * 1024 * 1024)))]) ! 0) = 40 * 1024 * 1024
   \<and> length (emitted_chunks (split_and_process_jsonl example_db jsonl_path
      [Line (Value (record_of_size 97 (20 * 1024 * 1024))),
       Line (Value (record_of_size 98 (20 * 1024 * 1024))),
       Line (Value (record_of_size 99 (45 * 1024 * 1024)))]) ! 0) = 2"
proof -
  let ?r = "split_and_process_jsonl example_db jsonl_path
      [Line (Value (record_of_size 97 (20 * 1024 * 1024))),
       Line (Value (record_of_size 98 (20 * 1024 * 1024))),
       Line (Value (record_of_size 99 (45 * 1024 * 1024)))]"
  have chunks: "emitted_chunks ?r
      = [[narrative_of_size 97 (20 * 1024 * 1024),
          narrative_of_size 98 (20 * 1024 * 1024)],
         [narrative_of_size 99 (45 * 1024 * 1024)]]"
    by (simp only: emitted_chunks_def run_20_20_45) simp
  have n: "length (emitted_chunks ?r) = 2"
    by (simp only: chunks) simp
  then have k: "0 < length (emitted_chunks ?r)" by simp
  have len: "utf8_bytes (snd (written_files ?r ! 0))
      = chunk_bytes (emitted_chunks ?r ! 0) + 7 * (length (emitted_chunks ?r ! 0) - 1)"
    using chunk_file_bytes [of example_db jsonl_path
      "[Line (Value (record_of_size 97 (20 * 1024 * 1024))),
        Line (Value (record_of_size 98 (20 * 1024 * 1024))),
        Line (Value (record_of_size 99 (45 * 1024 * 1024)))]"] k
    by blast
  have bytes: "chunk_bytes (emitted_chunks ?r ! 0) = 40 * 1024 * 1024"
    by (simp only: chunks) (simp add: utf8_bytes_narrative_of_size)
  have two: "length (emitted_chunks ?r ! 0) = 2"
    by (simp only: chunks) simp
  show ?thesis by (intro conjI n len bytes two)
qed

theorem chunk_file_bytes_counterexample:
  "written_files (split_and_process_jsonl example_db jsonl_path
      [Line (Value (record_of_size 97 (20 * 1024 * 1024))),
       Line (Value (record_of_size 98 (20 * 1024 * 1024))),
       Line (Value (record_of_size 99 (45 * 1024 * 1024)))])
     = [(ascii ''remap-my-rag-source-data/processed/json_chunks/large_raw_data_part_000.txt'',
         narrative_of_size 97 (20 * 1024 * 1024) @ paragraph_break
           @ narrative_of_size 98 (20 * 1024 * 1024)),
        (ascii ''remap-my-rag-source-data/processed/json_chunks/large_raw_data_part_001.txt'',
         narrative_of_size 99 (45 * 1024 * 1024))]
   \<and> utf8_bytes (snd (written_files (split_and_process_jsonl example_db jsonl_path
      [Line (Value (record_of_size 97 (20 * 1024 * 1024))),
       Line (Value (record_of_size 98 (20 * 1024 * 1024))),
       Line (Value (record_of_size 99 (45 * 1024 * 1024)))]) ! 0)) = 40 * 1024 * 1024 + 7
   \<and> utf8_bytes (snd (written_files (split_and_process_jsonl example_db jsonl_path
      [Line (Value (record_of_size 97 (20 * 1024 * 1024))),
       Line (Value (record_of_size 98 (20 * 1024 * 1024))),
       Line (Value (record_of_size 99 (45 * 1024 * 1024)))]) ! 1)) = 45 * 1024 * 1024
   \<and> MAX_JSON_CHUNK_SIZE_BYTES
       < utf8_bytes (snd (written_files (split_and_process_jsonl example_db jsonl_path
      [Line (Value (record_of_size 97 (20 * 1024 * 1024))),
       Line (Value (record_of_size 98 (20 * 1024 * 1024))),
       Line (Value (record_of_size 99 (45 * 1024 * 1024)))]) ! 0))
   \<and> MAX_JSON_CHUNK_SIZE_BYTES
       < utf8_bytes (snd (written_files (split_and_process_jsonl example_db jsonl_path
      [Line (Value (record_of_size 97 (20 * 1024 * 1024))),
       Line (Value (record_of_size 98 (20 * 1024 * 1024))),
       Line (Value (record_of_size 99 (45 * 1024 * 1024)))]) ! 1))"
proof -
  let ?r = "split_and_process_jsonl example_db jsonl_path
      [Line (Value (record_of_size 97 (20 * 1024 * 1024))),
       Line (Value (record_of_size 98 (20 * 1024 * 1024))),
       Line (Value (record_of_size 99 (45 * 1024 * 1024)))]"
  have files: "written_files ?r
     = [(ascii ''remap-my-rag-source-data/processed/json_chunks/large_raw_data_part_000.txt'',
         narrative_of_size 97 (20 * 1024 * 1024) @ paragraph_break
           @ narrative_of_size 98 (20 * 1024 * 1024)),
        (ascii ''remap-my-rag-source-data/processed/json_chunks/large_raw_data_part_001.txt'',
         narrative_of_size 99 (45 * 1024 * 1024))]"
    by (simp only: written_files_def run_20_20_45)
       (simp add: prod_eq_iff chunk_file_path ascii_append, simp add: write_json_chunk_def)
  have l0: "utf8_bytes (snd (written_files ?r ! 0)) = 40 * 1024 * 1024 + 7"
    by (simp only: files) (simp add: utf8_bytes_narrative_of_size)
  have l1: "utf8_bytes (snd (written_files ?r ! 1)) = 45 * 1024 * 1024"
    by (simp only: files) (simp add: utf8_bytes_narrative_of_size)
  have m0: "MAX_JSON_CHUNK_SIZE_BYTES < utf8_bytes (snd (written_files ?r ! 0))"
    by (simp only: l0) (simp add: MAX_JSON_CHUNK_SIZE_BYTES_def)
  have m1: "MAX_JSON_CHUNK_SIZE_BYTES < utf8_bytes (snd (written_files ?r ! 1))"
    by (simp only: l1) (simp add: MAX_JSON_CHUNK_SIZE_BYTES_def)
  show ?thesis by (intro conjI files l0 l1 m0 m1)
qed

section \<open>The order of the chunk file names\<close>

lemma lex_less_same_prefix: "lex_less (xs @ ys) (xs @ zs) = lex_less ys zs"
  by (induction xs) simp_all

lemma decimal_split:
  fixes n :: nat
  shows "n = 100 * (n div 100) + 10 * (n div 10 mod 10) + n mod 10"
proof -
  have "n = 10 * (n div 10) + n mod 10" by simp
  moreover have "n div 10 = 10 * (n div 10 div 10) + n div 10 mod 10" by simp
  moreover have "n div 10 div 10 = n div 100" by (simp add: div_mult2_eq [symmetric])
  ultimately show ?thesis by linarith
qed

lemma digits_less:
  fixes a b c a' b' c' :: nat
  assumes "100 * a + 10 * b + c < 100 * a' + 10 * b' + c'"
    and "b < 10" "c < 10" "b' < 10" "c' < 10"
  shows "a < a' \<or> (a = a' \<and> (b < b' \<or> (b = b' \<and> c < c')))"
  using assms by arith

lemma three_digits_less:
  fixes i j :: nat
  assumes "i < j"
  shows "i div 100 < j div 100
         \<or> (i div 100 = j div 100
             \<and> (i div 10 mod 10 < j div 10 mod 10
                 \<or> (i div 10 mod 10 = j div 10 mod 10 \<and> i mod 10 < j mod 10)))"
proof (rule digits_less)
  show "100 * (i div 100) + 10 * (i div 10 mod 10) + i mod 10
          < 100 * (j div 100) + 10 * (j div 10 mod 10) + j mod 10"
    using assms decimal_split [of i] decimal_split [of j] by simp
qed simp_all

lemma lex_less_three_digits:
  assumes "a < 10" "b < 10" "c < 10" "a' < 10" "b' < 10" "c' < 10"
    and "a < a' \<or> (a = a' \<and> (b < b' \<or> (b = b' \<and> c < c')))"
  shows "lex_less ([digit_char a, digit_char b, digit_char c] @ rest)
                  ([digit_char a', digit_char b', digit_char c'] @ rest')"
  using assms by (auto simp: digit_char_code)

lemma lex_less_format_03d:
  assumes "i < j" and "j < 1000"
  shows "lex_less (format_03d i @ rest) (format_03d j @ rest')"
proof -
  have i: "i < 1000" using assms by simp
  have fi: "format_03d i = [digit_char (i div 100), digit_char (i div 10 mod 10), digit_char (i mod 10)]"
    using i by (rule format_03d_three_digits)
  have fj: "format_03d j = [digit_char (j div 100), digit_char (j div 10 mod 10), digit_char (j mod 10)]"
    using assms(2) by (rule format_03d_three_digits)
  have "i div 100 < 10" "j div 100 < 10" using i assms(2) by simp_all
  moreover have "i div 10 mod 10 < 10" "j div 10 mod 10 < 10" "i mod 10 < 10" "j mod 10 < 10"
    by simp_all
  ultimately show ?thesis
    unfolding fi fj using three_digits_less [OF assms(1)]
    by (intro lex_less_three_digits) simp_all
qed

lemma lex_less_output_filename:
  assumes "i < j" and "j < 1000"
  shows "lex_less (output_filename b i) (output_filename b j)"
proof -
  have "lex_less (format_03d i @ ascii ''.txt'') (format_03d j @ ascii ''.txt'')"
    using assms by (rule lex_less_format_03d)
  then have "lex_less ((b @ ascii ''_part_'') @ format_03d i @ ascii ''.txt'')
                      ((b @ ascii ''_part_'') @ format_03d j @ ascii ''.txt'')"
    by (simp only: lex_less_same_prefix)
  then show ?thesis by (simp add: output_filename_def)
qed

text \<open>The names a run has written are those of the indices \<open>0, 1, 2, ...\<close>, in order.\<close>

lemma numbered_names:
  assumes "map (\<lambda>c. (fst c, fst (snd c))) cs = map (\<lambda>i. (b, i)) [0..<length cs]"
  shows "map (\<lambda>c. output_filename (fst c) (fst (snd c))) cs
           = map (output_filename b) [0..<length cs]"
proof -
  have "map (\<lambda>c. output_filename (fst c) (fst (snd c))) cs
          = map (\<lambda>q. output_filename (fst q) (snd q)) (map (\<lambda>c. (fst c, fst (snd c))) cs)"
    by simp
  also have "\<dots> = map (\<lambda>q. output_filename (fst q) (snd q)) (map (\<lambda>i. (b, i)) [0..<length cs])"
    by (simp only: assms)
  also have "\<dots> = map (output_filename b) [0..<length cs]"
    by simp
  finally show ?thesis .
qed

lemma numbered_length:
  assumes "numbered b s"
  shows "length (write_calls s) = chunk_file_index s"
proof -
  have "length (map (\<lambda>c. (fst c, fst (snd c))) (write_calls s))
          = length (map (\<lambda>i. (b, i)) [0..<chunk_file_index s])"
    using assms unfolding numbered_def by (rule arg_cong)
  then show ?thesis by simp
qed

lemma run_names:
  "written_names (split_and_process_jsonl U p ls)
     = map (output_filename (py_replace (ascii ''.jsonl'') [] (os_path_basename p)))
         [0..<length (written_names (split_and_process_jsonl U p ls))]"
proof -
  define b where "b = py_replace (ascii ''.jsonl'') [] (os_path_basename p)"
  obtain s where inv: "run_inv b s"
    and run: "split_and_process_jsonl U p ls = Inr (finish b s)
              \<or> (\<exists>e. split_and_process_jsonl U p ls = Inl (e, s))"
    using run_final_state [of p U ls] unfolding b_def [symmetric] by blast
  have num: "numbered b s" using inv by (simp add: run_inv_def)
  have "map (\<lambda>c. (fst c, fst (snd c))) (write_calls (final_state (split_and_process_jsonl U p ls)))
          = map (\<lambda>i. (b, i)) [0..<length (write_calls (final_state (split_and_process_jsonl U p ls)))]"
    using run
  proof
    assume r: "split_and_process_jsonl U p ls = Inr (finish b s)"
    have "map (\<lambda>c. (fst c, fst (snd c))) (write_calls (finish b s))
                 = map (\<lambda>i. (b, i)) [0..<length (write_calls (finish b s))]"
      using num by (rule finish_numbered)
    then show ?thesis by (simp add: r final_state_def)
  next
    assume "\<exists>e. split_and_process_jsonl U p ls = Inl (e, s)"
    then obtain e where r: "split_and_process_jsonl U p ls = Inl (e, s)" ..
    have "map (\<lambda>c. (fst c, fst (snd c))) (write_calls s)
                 = map (\<lambda>i. (b, i)) [0..<length (write_calls s)]"
      using num by (simp add: numbered_length) (simp add: numbered_def)
    then show ?thesis by (simp add: r final_state_def)
  qed
  then show ?thesis
    unfolding written_names_def b_def [symmetric]
    by (simp only: length_map) (rule numbered_names)
qed

text \<open>
  C9, as the code has it. The names of the files a run writes are
  \<open>{base}_part_{index:03d}.txt\<close> for the indices \<open>0, 1, 2, ...\<close> in the order of emission.
  For two chunks with indices \<open>i < j\<close> and \<open>j \<le> 999\<close> the name of chunk \<open>i\<close> is
  lexicographically less than the name of chunk \<open>j\<close>: among the first thousand files the
  lexicographic order of the names is the order of emission.
\<close>

theorem chunk_names_ordered:
  "written_names (split_and_process_jsonl U p infile)
     = map (output_filename (py_replace (ascii ''.jsonl'') [] (os_path_basename p)))
         [0..<length (written_names (split_and_process_jsonl U p infile))]
   \<and> (\<forall>i j. i < j \<and> j < length (written_names (split_and_process_jsonl U p infile)) \<and> j < 1000
        \<longrightarrow> lex_less (written_names (split_and_process_jsonl U p infile) ! i)
                      (written_names (split_and_process_jsonl U p infile) ! j))"
proof (intro conjI allI impI)
  let ?names = "written_names (split_and_process_jsonl U p infile)"
  let ?b = "py_replace (ascii ''.jsonl'') [] (os_path_basename p)"
  show names: "?names = map (output_filename ?b) [0..<length ?names]"
    by (rule run_names)
  fix i j assume ij: "i < j \<and> j < length ?names \<and> j < 1000"
  then have "?names ! i = output_filename ?b i" and "?names ! j = output_filename ?b j"
    using nth_map [of i "[0..<length ?names]" "output_filename ?b"]
          nth_map [of j "[0..<length ?names]" "output_filename ?b"] names
    by simp_all
  moreover have "lex_less (output_filename ?b i) (output_filename ?b j)"
    using ij by (intro lex_less_output_filename) simp_all
  ultimately show "lex_less (?names ! i) (?names ! j)" by simp
qed

text \<open>The run on two narratives of 20 MB and one of 45 MB writes two files.\<close>

theorem chunk_names_ordered_witness:
  "written_names (split_and_process_jsonl example_db jsonl_path
      [Line (Value (record_of_size 97 (20 * 1024 * 1024))),
       Line (Value (record_of_size 98 (20 * 1024 * 1024))),
       Line (Value (record_of_size 99 (45 * 1024 * 1024)))])
     = [ascii ''large_raw_data_part_000.txt'', ascii ''large_raw_data_part_001.txt'']
   \<and> lex_less
        (written_names (split_and_process_jsonl example_db jsonl_path
          [Line (Value (record_of_size 97 (20 * 1024 * 1024))),
           Line (Value (record_of_size 98 (20 * 1024 * 1024))),
           Line (Value (record_of_size 99 (45 * 1024 * 1024)))]) ! 0)
        (written_names (split_and_process_jsonl example_db jsonl_path
          [Line (Value (record_of_size 97 (20 * 1024 * 1024))),
           Line (Value (record_of_size 98 (20 * 1024 * 1024))),
           Line (Value (record_of_size 99 (45 * 1024 * 1024)))]) ! 1)"
proof -
  let ?infile = "[Line (Value (record_of_size 97 (20 * 1024 * 1024))),
       Line (Value (record_of_size 98 (20 * 1024 * 1024))),
       Line (Value (record_of_size 99 (45 * 1024 * 1024)))]"
  let ?names = "written_names (split_and_process_jsonl example_db jsonl_path ?infile)"
  have names: "?names = [ascii ''large_raw_data_part_000.txt'', ascii ''large_raw_data_part_001.txt'']"
    by (simp only: written_names_def run_20_20_45) (simp add: output_filename_def ascii_append)
  have "(0::nat) < 1 \<and> 1 < length ?names \<and> (1::nat) < 1000"
    by (simp only: names) simp
  with chunk_names_ordered [of example_db jsonl_path ?infile]
  have less: "lex_less (?names ! 0) (?names ! 1)"
    by blast
  show ?thesis by (intro conjI names less)
qed

text \<open>A run that emits more than a thousand chunks: 1001 records whose narratives
  have 41 MB each. The name of chunk 1000 comes before the name of chunk 999.\<close>

lemma for_lines_oversized:
  assumes nar: "process_json_record U r (os_path_basename p) = Inr t"
    and enc: "encodable t"
    and big: "MAX_JSON_CHUNK_SIZE_BYTES < utf8_bytes t"
  shows "output_data_list s = [t] \<Longrightarrow> current_chunk_size s = utf8_bytes t \<Longrightarrow>
     \<exists>s'. for_lines U p b n (replicate k (Line (Value r))) s = Inr s'
          \<and> output_data_list s' = [t] \<and> current_chunk_size s' = utf8_bytes t
          \<and> length (write_calls s') = length (write_calls s) + k"
proof (induction k arbitrary: s n)
  case 0
  then show ?case by simp
next
  case (Suc k)
  let ?s1 = "append_text b t s"
  have step: "loop_body U p b n (Value r) s = Inr ?s1"
    by (simp add: loop_body_Value nar enc)
  have s1: "output_data_list ?s1 = [t]" "current_chunk_size ?s1 = utf8_bytes t"
      "length (write_calls ?s1) = length (write_calls s) + 1"
    using Suc.prems big by (auto simp add: append_text_def)
  from Suc.IH [OF s1(1) s1(2), of "n + 1"] obtain s'
    where "for_lines U p b (n + 1) (replicate k (Line (Value r))) ?s1 = Inr s'"
      and "output_data_list s' = [t]" and "current_chunk_size s' = utf8_bytes t"
      and "length (write_calls s') = length (write_calls ?s1) + k"
    by blast
  then show ?case using step s1(3) by simp
qed

lemma run_oversized:
  assumes nar: "process_json_record U r (os_path_basename p) = Inr t"
    and enc: "encodable t"
    and big: "MAX_JSON_CHUNK_SIZE_BYTES < utf8_bytes t"
  shows "length (written_names (split_and_process_jsonl U p (replicate (Suc k) (Line (Value r)))))
           = Suc k"
proof -
  define b where "b = py_replace (ascii ''.jsonl'') [] (os_path_basename p)"
  let ?s1 = "append_text b t (start p)"
  have step: "loop_body U p b 0 (Value r) (start p) = Inr ?s1"
    by (simp add: loop_body_Value nar enc)
  have s1: "output_data_list ?s1 = [t]" "current_chunk_size ?s1 = utf8_bytes t"
      "write_calls ?s1 = []"
    by (simp_all add: append_text_def start_def)
  from for_lines_oversized [OF nar enc big s1(1) s1(2), of b 1 k] obtain s'
    where loop: "for_lines U p b 1 (replicate k (Line (Value r))) ?s1 = Inr s'"
      and buf: "output_data_list s' = [t]"
      and calls: "length (write_calls s') = length (write_calls ?s1) + k"
    by blast
  have "for_lines U p b 0 (replicate (Suc k) (Line (Value r))) (start p) = Inr s'"
    using step loop by simp
  then have "split_and_process_jsonl U p (replicate (Suc k) (Line (Value r))) = Inr (finish b s')"
    by (simp add: split_and_process_jsonl_unfold b_def [symmetric])
  then show ?thesis
    using buf calls s1(3) by (simp add: written_names_def final_state_def finish_write_calls)
qed

lemma output_filename_999:
  "output_filename (ascii ''large_raw_data'') 999 = ascii ''large_raw_data_part_999.txt''"
  by (simp add: output_filename_def format_03d_examples ascii_append)

lemma output_filename_1000:
  "output_filename (ascii ''large_raw_data'') 1000 = ascii ''large_raw_data_part_1000.txt''"
  by (simp add: output_filename_def format_03d_examples ascii_append)

lemma lex_less_1000_999:
  "lex_less (ascii ''large_raw_data_part_1000.txt'') (ascii ''large_raw_data_part_999.txt'')"
  "\<not> lex_less (ascii ''large_raw_data_part_999.txt'') (ascii ''large_raw_data_part_1000.txt'')"
  by (simp_all add: ascii_def)

theorem chunk_names_ordered_counterexample:
  "length (written_names (split_and_process_jsonl example_db jsonl_path
      (replicate 1001 (Line (Value (record_of_size 120 (41 * 1024 * 1024))))))) = 1001
   \<and> written_names (split_and_process_jsonl example_db jsonl_path
        (replicate 1001 (Line (Value (record_of_size 120 (41 * 1024 * 1024)))))) ! 999
       = ascii ''large_raw_data_part_999.txt''
   \<and> written_names (split_and_process_jsonl example_db jsonl_path
        (replicate 1001 (Line (Value (record_of_size 120 (41 * 1024 * 1024)))))) ! 1000
       = ascii ''large_raw_data_part_1000.txt''
   \<and> \<not> lex_less
        (written_names (split_and_process_jsonl example_db jsonl_path
          (replicate 1001 (Line (Value (record_of_size 120 (41 * 1024 * 1024)))))) ! 999)
        (written_names (split_and_process_jsonl example_db jsonl_path
          (replicate 1001 (Line (Value (record_of_size 120 (41 * 1024 * 1024)))))) ! 1000)
   \<and> lex_less
        (written_names (split_and_process_jsonl example_db jsonl_path
          (replicate 1001 (Line (Value (record_of_size 120 (41 * 1024 * 1024)))))) ! 1000)
        (written_names (split_and_process_jsonl example_db jsonl_path
          (replicate 1001 (Line (Value (record_of_size 120 (41 * 1024 * 1024)))))) ! 999)"
proof -
  let ?r = "record_of_size 120 (41 * 1024 * 1024)"
  let ?names = "written_names (split_and_process_jsonl example_db jsonl_path
                  (replicate 1001 (Line (Value ?r))))"
  have nar: "process_json_record example_db ?r (os_path_basename jsonl_path)
               = Inr (narrative_of_size 120 (41 * 1024 * 1024))"
    by (simp add: narrative_of_record_of_size)
  have enc: "encodable (narrative_of_size 120 (41 * 1024 * 1024))"
    by (simp add: encodable_narrative_of_size)
  have big: "MAX_JSON_CHUNK_SIZE_BYTES < utf8_bytes (narrative_of_size 120 (41 * 1024 * 1024))"
    by (simp add: utf8_bytes_narrative_of_size MAX_JSON_CHUNK_SIZE_BYTES_def)
  have "(1001::nat) = Suc 1000" by simp
  then have len: "length ?names = 1001"
    using run_oversized [OF nar enc big, of 1000] by (simp only:)
  have names: "?names = map (output_filename (ascii ''large_raw_data'')) [0..<1001]"
    using run_names [of example_db jsonl_path "replicate 1001 (Line (Value ?r))"]
    by (simp only: len) simp
  have n999: "?names ! 999 = ascii ''large_raw_data_part_999.txt''"
    by (simp only: names) (simp add: output_filename_999)
  have n1000: "?names ! 1000 = ascii ''large_raw_data_part_1000.txt''"
    by (simp only: names) (simp add: output_filename_1000)
  have a: "\<not> lex_less (?names ! 999) (?names ! 1000)"
    by (simp only: n999 n1000 lex_less_1000_999) simp
  have b: "lex_less (?names ! 1000) (?names ! 999)"
    by (simp only: n999 n1000 lex_less_1000_999)
  show ?thesis by (intro conjI len n999 n1000 a b)
qed

section \<open>The narrative of a record\<close>







lemma rendered_sentences_Nil [simp]: "rendered_sentences U [] = Inr []"
  by (simp add: rendered_sentences_def)











text \<open>A record with a reserved key, a key in mixed case, a key that starts with an e with
  acute, the patient mapping with a list as one sub-field and the other missing, a
  float, a bool, a list, a null and a negative int; and a record with an int of 4301
  digits.\<close>

lemma process_json_record_example:
  "process_json_record example_db
     (JDict [(ascii ''id'', JInt 7), (ascii ''firstName'', JStr (ascii ''ann'')),
             ([233] @ ascii ''mile_zola'', JStr (ascii ''x'')),
             (ascii ''patient_details'',
                JDict [(ascii ''patient_id'', JList [JStr (ascii ''a''), JStr (ascii ''it's'')])]),
             (ascii ''score'', JFloat (ascii ''1.5'')), (ascii ''active'', JBool True),
             (ascii ''tags'', JList [JStr (ascii ''a'')]), (ascii ''note'', JNull),
             (ascii ''age'', JInt (- 41))])
     (ascii ''data.jsonl'')
   = Inr (ascii ''SOURCE FILE: data.jsonl. The Firstname is: ann. The '' @ [201]
          @ ascii ''mile Zola is: x. Patient ID: ['a', '' @ [34] @ ascii ''it's'' @ [34]
          @ ascii '']. Diagnosis: N/A. The Score is: 1.5. The Active is: True. The Age is: -41.'')"
  by (simp add: record_eval repr_eval dict_get_def ascii_def example_db_def)







section \<open>Fields that are not rendered\<close>

lemma record_item_ignored:
  "ignored_field kv \<Longrightarrow> record_item U kv parts = Inr parts"
  by (auto simp add: ignored_field_def record_item_def Let_def)

lemma for_items_filter:
  "for_items U (filter (\<lambda>kv. \<not> ignored_field kv) kvs) parts = for_items U kvs parts"
  by (induction kvs arbitrary: parts) (simp_all add: record_item_ignored split: sum.split)

text \<open>
  C10. A field that is not reserved and whose value is neither an int, a float or a str,
  nor a dict under the key \<open>patient_details\<close>, leaves \<open>narrative_parts\<close> as it is; the
  narrative of a record is that of the record without such fields, so two records that
  differ only in such fields have the same narrative.
\<close>

theorem ignored_fields_omitted:
  "(ignored_field kv \<longrightarrow> record_item U kv narrative_parts = Inr narrative_parts)
   \<and> process_json_record U (JDict (filter (\<lambda>kv. \<not> ignored_field kv) kvs)) original_filename
       = process_json_record U (JDict kvs) original_filename
   \<and> (filter (\<lambda>kv. \<not> ignored_field kv) kvs1 = filter (\<lambda>kv. \<not> ignored_field kv) kvs2
        \<longrightarrow> process_json_record U (JDict kvs1) original_filename
              = process_json_record U (JDict kvs2) original_filename)"
proof (intro conjI impI)
  show "record_item U kv narrative_parts = Inr narrative_parts" if "ignored_field kv"
    using that by (rule record_item_ignored)
  show filtered: "process_json_record U (JDict (filter (\<lambda>kv. \<not> ignored_field kv) kvs)) original_filename
       = process_json_record U (JDict kvs) original_filename" for kvs
    by (simp add: process_json_record_def for_items_filter)
  show "process_json_record U (JDict kvs1) original_filename
          = process_json_record U (JDict kvs2) original_filename"
    if "filter (\<lambda>kv. \<not> ignored_field kv) kvs1 = filter (\<lambda>kv. \<not> ignored_field kv) kvs2"
    using that filtered [of kvs1] filtered [of kvs2] by simp
qed

text \<open>Two records that differ in a list, a null and a mapping under another key.\<close>

theorem ignored_fields_omitted_witness:
  "ignored_field (ascii ''tags'', JList [JStr (ascii ''a'')])
   \<and> ignored_field (ascii ''note'', JNull)
   \<and> ignored_field (ascii ''address'', JDict [(ascii ''city'', JStr (ascii ''Oslo''))])
   \<and> filter (\<lambda>kv. \<not> ignored_field kv)
         [(ascii ''name'', JStr (ascii ''Ann'')), (ascii ''tags'', JList [JStr (ascii ''a'')])]
       = filter (\<lambda>kv. \<not> ignored_field kv)
           [(ascii ''note'', JNull), (ascii ''name'', JStr (ascii ''Ann'')),
            (ascii ''address'', JDict [(ascii ''city'', JStr (ascii ''Oslo''))])]
   \<and> process_json_record example_db
         (JDict [(ascii ''name'', JStr (ascii ''Ann'')), (ascii ''tags'', JList [JStr (ascii ''a'')])])
         (ascii ''data.jsonl'')
       = process_json_record example_db
           (JDict [(ascii ''note'', JNull), (ascii ''name'', JStr (ascii ''Ann'')),
                   (ascii ''address'', JDict [(ascii ''city'', JStr (ascii ''Oslo''))])])
           (ascii ''data.jsonl'')
   \<and> process_json_record example_db
         (JDict [(ascii ''name'', JStr (ascii ''Ann'')), (ascii ''tags'', JList [JStr (ascii ''a'')])])
         (ascii ''data.jsonl'')
       = Inr (ascii ''SOURCE FILE: data.jsonl. The Name is: Ann.'')
   \<and> record_item example_db (ascii ''tags'', JList [JStr (ascii ''a'')]) [ascii ''The Name is: Ann.'']
       = Inr [ascii ''The Name is: Ann.'']"
proof -
  have i1: "ignored_field (ascii ''tags'', JList [JStr (ascii ''a'')])"
    and i2: "ignored_field (ascii ''note'', JNull)"
    and i3: "ignored_field (ascii ''address'', JDict [(ascii ''city'', JStr (ascii ''Oslo''))])"
    by (simp_all add: ignored_field_def ascii_def)
  have f: "filter (\<lambda>kv. \<not> ignored_field kv)
         [(ascii ''name'', JStr (ascii ''Ann'')), (ascii ''tags'', JList [JStr (ascii ''a'')])]
       = filter (\<lambda>kv. \<not> ignored_field kv)
           [(ascii ''note'', JNull), (ascii ''name'', JStr (ascii ''Ann'')),
            (ascii ''address'', JDict [(ascii ''city'', JStr (ascii ''Oslo''))])]"
    by (simp add: ignored_field_def ascii_def)
  note inst = ignored_fields_omitted
    [of "(ascii ''tags'', JList [JStr (ascii ''a'')])" example_db "[ascii ''The Name is: Ann.'']" _
        "ascii ''data.jsonl''"
        "[(ascii ''name'', JStr (ascii ''Ann'')), (ascii ''tags'', JList [JStr (ascii ''a'')])]"
        "[(ascii ''note'', JNull), (ascii ''name'', JStr (ascii ''Ann'')),
          (ascii ''address'', JDict [(ascii ''city'', JStr (ascii ''Oslo''))])]"]
  have p: "process_json_record example_db
         (JDict [(ascii ''name'', JStr (ascii ''Ann'')), (ascii ''tags'', JList [JStr (ascii ''a'')])])
         (ascii ''data.jsonl'')
       = process_json_record example_db
           (JDict [(ascii ''note'', JNull), (ascii ''name'', JStr (ascii ''Ann'')),
                   (ascii ''address'', JDict [(ascii ''city'', JStr (ascii ''Oslo''))])])
           (ascii ''data.jsonl'')"
    using inst f by blast
  have v: "process_json_record example_db
         (JDict [(ascii ''name'', JStr (ascii ''Ann'')), (ascii ''tags'', JList [JStr (ascii ''a'')])])
         (ascii ''data.jsonl'')
       = Inr (ascii ''SOURCE FILE: data.jsonl. The Name is: Ann.'')"
    by (simp add: record_eval ascii_def)
  have r: "record_item example_db (ascii ''tags'', JList [JStr (ascii ''a'')]) [ascii ''The Name is: Ann.'']
       = Inr [ascii ''The Name is: Ann.'']"
    using inst i1 by blast
  show ?thesis by (intro conjI i1 i2 i3 f p v r)
qed

section \<open>Redaction\<close>

text \<open>
  C3. The single-process script passes the narrative of \<open>process_json_record\<close> to the
  chunk as it is: for a record whose text names a patient, the file written holds the
  identifying literal, and no marker, whereas the redaction step of the distributed job
  masks the literal and puts the marker in front.
\<close>

theorem narrative_not_redacted:
  "written_files (split_and_process_jsonl U jsonl_path
      [Line (Value (JDict [(ascii ''notes'', JStr (ascii ''Patient John Smith, SSN 123-45-6789''))]))])
     = [(ascii ''remap-my-rag-source-data/processed/json_chunks/large_raw_data_part_000.txt'',
         ascii ''SOURCE FILE: large_raw_data.jsonl. The Notes is: Patient John Smith, SSN 123-45-6789.'')]
   \<and> redaction U
        (ascii ''SOURCE FILE: large_raw_data.jsonl. The Notes is: Patient John Smith, SSN 123-45-6789.'')
     = ascii ''[HIPAA REDACTION APPLIED] SOURCE FILE: large_raw_data.jsonl. The Notes is: Patient [PHI_NAME_MASKED], SSN 123-45-6789.''"
proof -
  let ?t = "ascii ''SOURCE FILE: large_raw_data.jsonl. The Notes is: Patient John Smith, SSN 123-45-6789.''"
  have nar: "process_json_record U
               (JDict [(ascii ''notes'', JStr (ascii ''Patient John Smith, SSN 123-45-6789''))])
               (ascii ''large_raw_data.jsonl'')
      = Inr ?t"
    by (simp add: record_eval ascii_def)
  have enc: "encodable ?t" by (rule encodable_ascii)
  have files: "written_files (split_and_process_jsonl U jsonl_path
      [Line (Value (JDict [(ascii ''notes'', JStr (ascii ''Patient John Smith, SSN 123-45-6789''))]))])
     = [(ascii ''remap-my-rag-source-data/processed/json_chunks/large_raw_data_part_000.txt'', ?t)]"
    by (simp add: split_and_process_jsonl_unfold loop_body_Value nar enc written_files_def
          final_state_def finish_write_calls append_text_def start_def prod_eq_iff
          chunk_file_path ascii_append)
       (simp add: write_json_chunk_def)
  have red: "redaction U ?t
     = ascii ''[HIPAA REDACTION APPLIED] SOURCE FILE: large_raw_data.jsonl. The Notes is: Patient [PHI_NAME_MASKED], SSN 123-45-6789.''"
    by (simp add: redaction_def py_lower_def lower_at_def ascii_lower_def startswith_def
          py_replace.simps ascii_def)
  show ?thesis by (intro conjI files red)
qed

section \<open>The classification of the raw files\<close>

lemmas file_eval =
  process_unstructured_file_def endswith_any_def endswith_def py_lower_def lower_at_def
  ascii_lower_def startswith_def os_path_join_def RAW_ROOT_def PROCESSED_ROOT_def

text \<open>
  C8. The large file of the main block lies in the directory \<open>raw/json\<close>, which
  \<open>os.walk\<close> names by joining the root and \<open>json\<close>: the name has no slash at its end, the
  test \<open>'json/' in subdir\<close> fails and the file is reported as of unknown type. A file of the
  same name one directory further down is deferred. A walk over an image, a \<open>csv\<close> file and
  the large file quarantines the first and reports the other two as unknown.
\<close>

theorem large_file_classified_unknown:
  "os_path_join RAW_ROOT (ascii ''json'') = ascii ''remap-my-rag-source-data/raw/json''
   \<and> os_path_join (os_path_join RAW_ROOT (ascii ''json'')) (ascii ''large_raw_data.jsonl'') = jsonl_path
   \<and> \<not> contains (ascii ''json/'') (os_path_join RAW_ROOT (ascii ''json''))
   \<and> process_unstructured_file U (os_path_join RAW_ROOT (ascii ''json'')) (ascii ''large_raw_data.jsonl'')
       = \<lparr>category = Unknown, renamed = None,
          message = Some (ascii ''  [SKIPPED] Unknown file type large_raw_data.jsonl.'')\<rparr>
   \<and> process_unstructured_file U (os_path_join (os_path_join RAW_ROOT (ascii ''json'')) (ascii ''2024''))
         (ascii ''large_raw_data.jsonl'')
       = \<lparr>category = Deferred, renamed = None, message = None\<rparr>
   \<and> map category (process_unstructured_files U
         [(RAW_ROOT, [ascii ''photo.JPG'', ascii ''notes.csv'']),
          (os_path_join RAW_ROOT (ascii ''json''), [ascii ''large_raw_data.jsonl''])])
       = [Quarantine, Unknown, Unknown]"
proof -
  have dir: "os_path_join RAW_ROOT (ascii ''json'') = ascii ''remap-my-rag-source-data/raw/json''"
    by (simp add: file_eval ascii_def)
  have path: "os_path_join (os_path_join RAW_ROOT (ascii ''json'')) (ascii ''large_raw_data.jsonl'')
                = jsonl_path"
    by (simp add: jsonl_path_def)
  have no: "\<not> contains (ascii ''json/'') (os_path_join RAW_ROOT (ascii ''json''))"
    by (simp only: dir) (simp add: startswith_def ascii_def)
  have unknown: "process_unstructured_file U (os_path_join RAW_ROOT (ascii ''json''))
         (ascii ''large_raw_data.jsonl'')
       = \<lparr>category = Unknown, renamed = None,
          message = Some (ascii ''  [SKIPPED] Unknown file type large_raw_data.jsonl.'')\<rparr>"
    by (simp only: dir) (simp add: file_eval ascii_def)
  have deeper: "process_unstructured_file U
         (os_path_join (os_path_join RAW_ROOT (ascii ''json'')) (ascii ''2024''))
         (ascii ''large_raw_data.jsonl'')
       = \<lparr>category = Deferred, renamed = None, message = None\<rparr>"
    by (simp only: dir) (simp add: file_eval ascii_def)
  have walk: "map category (process_unstructured_files U
         [(RAW_ROOT, [ascii ''photo.JPG'', ascii ''notes.csv'']),
          (os_path_join RAW_ROOT (ascii ''json''), [ascii ''large_raw_data.jsonl''])])
       = [Quarantine, Unknown, Unknown]"
    by (simp only: process_unstructured_files_def unknown) (simp add: file_eval ascii_def)
  show ?thesis by (intro conjI dir path no unknown deeper walk)
qed

text \<open>The rest of the classification.\<close>

lemma endswith_iff: "endswith s p = (\<exists>q. s = q @ p)"
proof
  assume "endswith s p"
  then have "drop (length s - length p) s = p"
    by (simp add: endswith_def)
  then have "s = take (length s - length p) s @ p"
    using append_take_drop_id [of "length s - length p" s] by simp
  then show "\<exists>q. s = q @ p" ..
next
  assume "\<exists>q. s = q @ p"
  then show "endswith s p" by (auto simp: endswith_def)
qed

lemma suffix_after_last_dot:
  assumes "46 \<notin> set e"
  shows "endswith s (46 # e)
           = (46 \<in> set s \<and> rev (takeWhile (\<lambda>c. c \<noteq> 46) (rev s)) = e)"
proof
  assume "endswith s (46 # e)"
  then obtain q where s: "s = q @ 46 # e" using endswith_iff by blast
  have "takeWhile (\<lambda>c. c \<noteq> 46) (rev e @ 46 # rev q) = rev e"
    using assms by (auto simp add: takeWhile_tail)
  then show "46 \<in> set s \<and> rev (takeWhile (\<lambda>c. c \<noteq> 46) (rev s)) = e"
    using s by simp
next
  assume r: "46 \<in> set s \<and> rev (takeWhile (\<lambda>c. c \<noteq> 46) (rev s)) = e"
  let ?P = "\<lambda>c::nat. c \<noteq> 46"
  have "dropWhile ?P (rev s) \<noteq> []"
    using r by (simp add: dropWhile_eq_Nil_conv)
  then obtain rest where d: "dropWhile ?P (rev s) = 46 # rest"
    using hd_dropWhile [of ?P "rev s"] by (cases "dropWhile ?P (rev s)") auto
  have "rev s = takeWhile ?P (rev s) @ dropWhile ?P (rev s)" by simp
  moreover have "takeWhile ?P (rev s) = rev e"
    using r by auto
  ultimately have "rev s = rev e @ 46 # rest"
    using d by simp
  then have "rev (rev s) = rev (rev e @ 46 # rest)"
    by (rule arg_cong)
  then have "s = rev rest @ 46 # e"
    by simp
  then show "endswith s (46 # e)" using endswith_iff by blast
qed

lemma endswith_extension:
  assumes "46 \<notin> set e"
  shows "endswith (py_lower U filename) (46 # e) = (derived_extension U filename = 46 # e)"
  by (simp add: suffix_after_last_dot [OF assms] derived_extension_def)

lemma category_by_extension:
  "category (process_unstructured_file U subdir filename) = classify_by_extension U subdir filename"
proof -
  have e: "endswith (py_lower U filename) (ascii ''.png'') = (derived_extension U filename = ascii ''.png'')"
    "endswith (py_lower U filename) (ascii ''.jpg'') = (derived_extension U filename = ascii ''.jpg'')"
    "endswith (py_lower U filename) (ascii ''.jpeg'') = (derived_extension U filename = ascii ''.jpeg'')"
    "endswith (py_lower U filename) (ascii ''.gif'') = (derived_extension U filename = ascii ''.gif'')"
    "endswith (py_lower U filename) (ascii ''.docx'') = (derived_extension U filename = ascii ''.docx'')"
    "endswith (py_lower U filename) (ascii ''.pdf'') = (derived_extension U filename = ascii ''.pdf'')"
    "endswith (py_lower U filename) (ascii ''.xlsx'') = (derived_extension U filename = ascii ''.xlsx'')"
    "endswith (py_lower U filename) (ascii ''.pptx'') = (derived_extension U filename = ascii ''.pptx'')"
    "endswith (py_lower U filename) (ascii ''.eml'') = (derived_extension U filename = ascii ''.eml'')"
    "endswith (py_lower U filename) (ascii ''.jsonl'') = (derived_extension U filename = ascii ''.jsonl'')"
    using endswith_extension [of _ U filename] by (simp_all add: ascii_def)
  show ?thesis
    by (simp add: process_unstructured_file_def classify_by_extension_def endswith_any_def e
          Let_def)
qed

text \<open>
  The branch taken is the lookup of the derived extension in the table, the first match
  winning; it depends on the name of the file only up to the case of its letters; and a
  file is renamed exactly when it is quarantined or passed through, so a deferred or
  unknown file stays where it is.
\<close>

theorem classification_by_extension:
  "category (process_unstructured_file U subdir filename) = classify_by_extension U subdir filename
   \<and> (py_lower U filename = py_lower U filename'
        \<longrightarrow> category (process_unstructured_file U subdir filename)
              = category (process_unstructured_file U subdir filename'))
   \<and> (renamed (process_unstructured_file U subdir filename) = None)
       = (category (process_unstructured_file U subdir filename) \<in> {Deferred, Unknown})"
proof (intro conjI impI)
  show "category (process_unstructured_file U subdir filename)
          = classify_by_extension U subdir filename"
    by (rule category_by_extension)
  show "category (process_unstructured_file U subdir filename)
          = category (process_unstructured_file U subdir filename')"
    if "py_lower U filename = py_lower U filename'"
    using that by (simp add: process_unstructured_file_def Let_def)
  show "(renamed (process_unstructured_file U subdir filename) = None)
       = (category (process_unstructured_file U subdir filename) \<in> {Deferred, Unknown})"
    by (simp add: process_unstructured_file_def Let_def)
qed

text \<open>Scenario D: \<open>photo.JPG\<close> is quarantined, whatever the case of its letters, and
  \<open>notes.csv\<close> is unknown.\<close>

theorem classification_by_extension_witness:
  "py_lower example_db (ascii ''photo.JPG'') = py_lower example_db (ascii ''PHOTO.jpg'')
   \<and> category (process_unstructured_file example_db RAW_ROOT (ascii ''photo.JPG''))
       = category (process_unstructured_file example_db RAW_ROOT (ascii ''PHOTO.jpg''))
   \<and> category (process_unstructured_file example_db RAW_ROOT (ascii ''photo.JPG'')) = Quarantine
   \<and> derived_extension example_db (ascii ''photo.JPG'') = ascii ''.jpg''
   \<and> category (process_unstructured_file example_db RAW_ROOT (ascii ''notes.csv'')) = Unknown
   \<and> renamed (process_unstructured_file example_db RAW_ROOT (ascii ''notes.csv'')) = None
   \<and> renamed (process_unstructured_file example_db RAW_ROOT (ascii ''photo.JPG''))
       = Some (ascii ''remap-my-rag-source-data/raw/photo.JPG'',
               ascii ''remap-my-rag-source-data/processed/unsupported_files/photo.JPG'')"
proof -
  have low: "py_lower example_db (ascii ''photo.JPG'') = py_lower example_db (ascii ''PHOTO.jpg'')"
    by (simp add: py_lower_def lower_at_def ascii_lower_def ascii_def)
  have same: "category (process_unstructured_file example_db RAW_ROOT (ascii ''photo.JPG''))
       = category (process_unstructured_file example_db RAW_ROOT (ascii ''PHOTO.jpg''))"
    using classification_by_extension
            [of example_db RAW_ROOT "ascii ''photo.JPG''" "ascii ''PHOTO.jpg''"] low
    by blast
  have ext: "derived_extension example_db (ascii ''photo.JPG'') = ascii ''.jpg''"
    by (simp add: derived_extension_def py_lower_def lower_at_def ascii_lower_def ascii_def)
  have jpg: "category (process_unstructured_file example_db RAW_ROOT (ascii ''photo.JPG'')) = Quarantine"
    by (simp add: file_eval ascii_def)
  have csv: "category (process_unstructured_file example_db RAW_ROOT (ascii ''notes.csv'')) = Unknown"
    by (simp add: file_eval ascii_def)
  have stay: "renamed (process_unstructured_file example_db RAW_ROOT (ascii ''notes.csv'')) = None"
    by (simp add: file_eval ascii_def)
  have moved: "renamed (process_unstructured_file example_db RAW_ROOT (ascii ''photo.JPG''))
       = Some (ascii ''remap-my-rag-source-data/raw/photo.JPG'',
               ascii ''remap-my-rag-source-data/processed/unsupported_files/photo.JPG'')"
    by (simp add: file_eval ascii_def)
  show ?thesis by (intro conjI low same jpg ext csv stay moved)
qed

end
